theory Spec2Isabelle
  imports Complex_Main "HOL-Library.Word"
begin

section \<open>The Mihomo core manager of the Windows runner\<close>

text \<open>
  A shallow embedding of \<^verbatim>\<open>src/windows/runner/mihomo_core.cpp\<close>: the class
  \<^verbatim>\<open>MihomoCore\<close> as a record, its member functions as functions that take the
  object and return the updated object together with the list of actions they performed
  (callback invocations, Win32 calls, thread operations), in program order. What the
  operating system, the file system and the engine's HTTP API answer is a parameter of
  each function. The trailing underscore of the C++ member names is dropped
  (\<^verbatim>\<open>state_\<close> is the field \<open>state\<close>).
\<close>

subsection \<open>Faults\<close>

text \<open>
  \<open>OutOfRange\<close> and \<open>InvalidArgument\<close> are the exceptions of \<^verbatim>\<open>std::stoi\<close> and
  \<^verbatim>\<open>std::stoll\<close>; nothing in the class catches them. \<open>ThreadTerminate\<close> is
  \<^verbatim>\<open>std::terminate\<close>, called when a joinable \<^verbatim>\<open>std::thread\<close> is assigned to.
\<close>

datatype error = OutOfRange | InvalidArgument | ThreadTerminate

subsection \<open>Double precision arithmetic\<close>

text \<open>
  The poller computes its rates in \<^verbatim>\<open>double\<close>. A finite binary64 value is modelled
  by a pair \<open>(m, e)\<close> that stands for \<open>m * 2 ^ e\<close>. Every operation rounds its exact
  result to the nearest value with a 53 bit significand, ties to even, as IEEE 754
  prescribes. The values that occur here are quotients of 64 bit integers and of 1000, far
  inside the normal range of binary64, so neither overflow nor subnormal numbers are
  modelled.
\<close>

type_synonym double = "int \<times> int"

function bitlen :: "int \<Rightarrow> nat" where
  "bitlen n = (if n \<le> 0 then 0 else Suc (bitlen (n div 2)))"
  by pat_completeness auto
termination
  by (relation "measure nat") auto

declare bitlen.simps [simp del]

definition round_half_even :: "int \<Rightarrow> int \<Rightarrow> int" where
  "round_half_even p q =
     (let d = p div q; r = p mod q
      in if 2 * r < q then d else if q < 2 * r then d + 1 else if even d then d else d + 1)"

definition scale2 :: "int \<Rightarrow> int \<Rightarrow> int \<Rightarrow> int \<times> int" where
  "scale2 p q e = (if 0 \<le> e then (p, q * 2 ^ nat e) else (p * 2 ^ nat (- e), q))"

text \<open>
  \<open>nearest_double p q\<close> is the binary64 value nearest to the fraction \<open>p / q\<close>
  (\<open>0 \<le> p\<close>, \<open>0 < q\<close>): the exponent \<open>e\<close> is chosen so that \<open>p / q / 2 ^ e\<close> lies in
  \<open>[2 ^ 52, 2 ^ 53)\<close>, and that quotient is rounded to an integer. A significand that
  rounds up to \<open>2 ^ 53\<close> stands for \<open>2 ^ 52\<close> at the next exponent, the same value.
\<close>

definition nearest_double :: "int \<Rightarrow> int \<Rightarrow> double" where
  "nearest_double p q =
     (let e0 = int (bitlen p) - int (bitlen q) - 53;
          (p0, q0) = scale2 p q e0;
          e = (if 2 ^ 53 * q0 \<le> p0 then e0 + 1 else e0);
          (p1, q1) = scale2 p q e
      in (round_half_even p1 q1, e))"

definition double_of_int :: "int \<Rightarrow> double" where
  "double_of_int n = (let (m, e) = nearest_double \<bar>n\<bar> 1 in (sgn n * m, e))"

text \<open>
  Division, for a divisor other than zero. The poller divides by \<^verbatim>\<open>1000.0\<close> and by a
  \<^verbatim>\<open>timeDelta\<close> that it has tested to be positive, and by nothing else.
\<close>

definition double_div :: "double \<Rightarrow> double \<Rightarrow> double" where
  "double_div a b =
     (let (m1, e1) = a; (m2, e2) = b;
          (m, e) = (if e2 \<le> e1 then nearest_double (\<bar>m1\<bar> * 2 ^ nat (e1 - e2)) \<bar>m2\<bar>
                    else nearest_double \<bar>m1\<bar> (\<bar>m2\<bar> * 2 ^ nat (e2 - e1)))
      in (sgn m1 * sgn m2 * m, e))"

definition double_pos :: "double \<Rightarrow> bool" where
  "double_pos a = (0 < fst a)"

text \<open>
  \<^verbatim>\<open>static_cast<int64_t>\<close> of a \<^verbatim>\<open>double\<close> truncates towards zero; the
  conversion of a value outside the range of \<^verbatim>\<open>int64_t\<close> is undefined (\<open>None\<close>).
\<close>

definition int64_of_double :: "double \<Rightarrow> int option" where
  "int64_of_double a =
     (let (m, e) = a;
          v = (if 0 \<le> e then m * 2 ^ nat e else sgn m * (\<bar>m\<bar> div 2 ^ nat (- e)))
      in if - (2 ^ 63) \<le> v \<and> v < 2 ^ 63 then Some v else None)"

text \<open>
  The C++ standard leaves the conversion of a value outside the range of \<^verbatim>\<open>int64_t\<close>
  undefined, and the code does not test for it. The conversion instruction of the x64
  target (\<^verbatim>\<open>cvttsd2si\<close>) stores \<^verbatim>\<open>0x8000000000000000\<close>, the least
  \<^verbatim>\<open>int64_t\<close>, for such an operand and execution goes on; \<open>static_cast_int64\<close> takes
  that value.
\<close>

definition int64_indefinite :: int where
  "int64_indefinite = - (2 ^ 63)"

definition static_cast_int64 :: "double \<Rightarrow> int" where
  "static_cast_int64 a = (case int64_of_double a of Some v \<Rightarrow> v | None \<Rightarrow> int64_indefinite)"

text \<open>The value a pair stands for, as a real number.\<close>

definition double_val :: "double \<Rightarrow> real" where
  "double_val a = real_of_int (fst a) * 2 powi (snd a)"

subsection \<open>Text matching\<close>

text \<open>
  The class reads its inputs with \<^verbatim>\<open>std::regex_search\<close>. Each of its patterns is a
  literal followed by a tail that, at a given position, matches in one way or not at
  all (its greedy repetitions are followed by characters they exclude, so backtracking
  never finds a second way). \<open>regex_search\<close> finds the leftmost position where the
  literal stands and the tail matches, and returns the tail's capture groups.
\<close>

definition dquote :: char where
  "dquote = CHR 0x22"

definition squote :: char where
  "squote = CHR 0x27"

definition isspace :: "char \<Rightarrow> bool" where
  "isspace c = (c = CHR '' '' \<or> c = CHR 0x09 \<or> c = CHR 0x0A \<or> c = CHR 0x0B
      \<or> c = CHR 0x0C \<or> c = CHR 0x0D)"

definition isdigit :: "char \<Rightarrow> bool" where
  "isdigit c = (48 \<le> (of_char c :: nat) \<and> (of_char c :: nat) \<le> 57)"

fun starts_with :: "string \<Rightarrow> string \<Rightarrow> bool" where
  "starts_with [] s = True"
| "starts_with (a # as) [] = False"
| "starts_with (a # as) (b # bs) = (a = b \<and> starts_with as bs)"

definition match_at :: "string \<Rightarrow> (string \<Rightarrow> 'a option) \<Rightarrow> string \<Rightarrow> 'a option" where
  "match_at lit tail s = (if starts_with lit s then tail (drop (length lit) s) else None)"

fun regex_search :: "string \<Rightarrow> (string \<Rightarrow> 'a option) \<Rightarrow> string \<Rightarrow> 'a option" where
  "regex_search lit tail [] = match_at lit tail []"
| "regex_search lit tail (c # cs) =
     (case match_at lit tail (c # cs) of
        Some groups \<Rightarrow> Some groups
      | None \<Rightarrow> regex_search lit tail cs)"

definition skip_quote :: "string \<Rightarrow> string" where
  "skip_quote s = (case s of [] \<Rightarrow> [] | c # cs \<Rightarrow> if c = squote \<or> c = dquote then cs else s)"

definition skip_colon :: "string \<Rightarrow> string" where
  "skip_colon s = (case s of [] \<Rightarrow> [] | c # cs \<Rightarrow> if c = CHR '':'' then cs else s)"

text \<open>
  \<^verbatim>\<open>external-controller:\s*['"]?([^'":\s]+):?(\d+)?['"]?\<close>: the groups are the host
  and the port's digits (empty when the second group did not take part in the match).
\<close>

definition host_char :: "char \<Rightarrow> bool" where
  "host_char c = (c \<noteq> squote \<and> c \<noteq> dquote \<and> c \<noteq> CHR '':'' \<and> \<not> isspace c)"

definition controller_tail :: "string \<Rightarrow> (string \<times> string) option" where
  "controller_tail s =
     (let r = skip_quote (dropWhile isspace s);
          host = takeWhile host_char r;
          port = takeWhile isdigit (skip_colon (dropWhile host_char r))
      in if host = [] then None else Some (host, port))"

definition controllerRegex :: "string \<Rightarrow> (string \<times> string) option" where
  "controllerRegex = regex_search ''external-controller:'' controller_tail"

text \<open>\<^verbatim>\<open>secret:\s*['"]?([^'"\s]+)['"]?\<close>\<close>

definition secret_char :: "char \<Rightarrow> bool" where
  "secret_char c = (c \<noteq> squote \<and> c \<noteq> dquote \<and> \<not> isspace c)"

definition secret_tail :: "string \<Rightarrow> string option" where
  "secret_tail s =
     (let secret = takeWhile secret_char (skip_quote (dropWhile isspace s))
      in if secret = [] then None else Some secret)"

definition secretRegex :: "string \<Rightarrow> string option" where
  "secretRegex = regex_search ''secret:'' secret_tail"

text \<open>\<^verbatim>\<open>"up"\s*:\s*(\d+)\<close> and \<^verbatim>\<open>"down"\s*:\s*(\d+)\<close>\<close>

definition counter_tail :: "string \<Rightarrow> string option" where
  "counter_tail s =
     (case dropWhile isspace s of
        [] \<Rightarrow> None
      | c # cs \<Rightarrow>
          if c = CHR '':'' then
            (let digits = takeWhile isdigit (dropWhile isspace cs)
             in if digits = [] then None else Some digits)
          else None)"

definition upRegex :: "string \<Rightarrow> string option" where
  "upRegex = regex_search (dquote # ''up'' @ [dquote]) counter_tail"

definition downRegex :: "string \<Rightarrow> string option" where
  "downRegex = regex_search (dquote # ''down'' @ [dquote]) counter_tail"

text \<open>
  \<^verbatim>\<open>std::stoi\<close> and \<^verbatim>\<open>std::stoll\<close> on a run of digits: the number, or
  \<^verbatim>\<open>std::out_of_range\<close> when it does not fit the result type (\<^verbatim>\<open>int\<close> has 32 bits,
  \<^verbatim>\<open>long long\<close> 64), or \<^verbatim>\<open>std::invalid_argument\<close> when there is no digit.
\<close>

definition decimal :: "string \<Rightarrow> int" where
  "decimal ds = foldl (\<lambda>n c. 10 * n + (int (of_char c) - 48)) 0 ds"

definition stoi :: "string \<Rightarrow> error + int" where
  "stoi ds =
     (if ds = [] then Inl InvalidArgument
      else if decimal ds < 2 ^ 31 then Inr (decimal ds) else Inl OutOfRange)"

definition stoll :: "string \<Rightarrow> error + int" where
  "stoll ds =
     (if ds = [] then Inl InvalidArgument
      else if decimal ds < 2 ^ 63 then Inr (decimal ds) else Inl OutOfRange)"

subsection \<open>The object and the actions it performs\<close>

record TrafficStats =
  upload :: int
  download :: int
  uploadSpeed :: int
  downloadSpeed :: int

text \<open>
  The members of \<^verbatim>\<open>class MihomoCore\<close>. A \<^verbatim>\<open>HANDLE\<close> is \<open>None\<close> when it is
  \<^verbatim>\<open>nullptr\<close>. A \<^verbatim>\<open>std::thread\<close> member is \<open>True\<close> while it is joinable, that
  is, from the start of its thread to the \<^verbatim>\<open>join\<close>. A callback member is \<open>True\<close>
  while a callable is registered; calling it appears among the actions.
\<close>

record MihomoCore =
  workDir :: string
  corePath :: string
  configPath :: string
  state :: string
  controllerHost :: string
  controllerPort :: int
  controllerSecret :: string
  processHandle :: "nat option"
  processThread :: "nat option"
  processId :: nat
  isRunning :: bool
  stopMonitoring :: bool
  logThread :: bool
  trafficThread :: bool
  lastUpload :: int
  lastDownload :: int
  lastTime :: "64 word"
  stateCallback :: bool
  trafficCallback :: bool
  logCallback :: bool
  errorCallback :: bool

datatype thread = LogThread | TrafficThread

text \<open>
  What a member function does besides changing the object, in program order.
  \<open>StateAssigned\<close> records every assignment to \<^verbatim>\<open>state_\<close> (the value
  \<^verbatim>\<open>GetState\<close> returns from then on); \<open>StateEvent\<close>, \<open>TrafficEvent\<close> and
  \<open>ErrorEvent\<close> are calls of the registered observers.
\<close>

datatype effect =
    StateAssigned string
  | StateEvent string
  | TrafficEvent TrafficStats
  | ErrorEvent string
  | CreateProcessA string string
  | Sleep nat
  | TerminateProcess nat
  | WaitForSingleObject nat nat nat
  | CloseHandle nat
  | StartThread thread
  | JoinThread thread
  | HttpPutRequest string string

text \<open>The constructor.\<close>

definition MihomoCore_new :: MihomoCore where
  "MihomoCore_new =
     \<lparr>workDir = [], corePath = [], configPath = [], state = ''disconnected'',
      controllerHost = ''127.0.0.1'', controllerPort = 9090, controllerSecret = [],
      processHandle = None, processThread = None, processId = 0,
      isRunning = False, stopMonitoring = False, logThread = False, trafficThread = False,
      lastUpload = 0, lastDownload = 0, lastTime = 0,
      stateCallback = False, trafficCallback = False, logCallback = False,
      errorCallback = False\<rparr>"

text \<open>\<^verbatim>\<open>if (stateCallback_) stateCallback_(state_)\<close> and its siblings.\<close>

definition notify_state :: "MihomoCore \<Rightarrow> effect list" where
  "notify_state s = (if stateCallback s then [StateEvent (state s)] else [])"

definition notify_error :: "MihomoCore \<Rightarrow> string \<Rightarrow> effect list" where
  "notify_error s msg = (if errorCallback s then [ErrorEvent msg] else [])"

subsection \<open>ParseControllerSettings\<close>

text \<open>
  \<open>file\<close> is what opening \<^verbatim>\<open>configPath\<close> gives: \<open>None\<close> when the file cannot be
  opened, its contents otherwise. An exception of \<^verbatim>\<open>std::stoi\<close> leaves the function
  with the host already assigned.
\<close>

definition ParseControllerSettings :: "string option \<Rightarrow> MihomoCore \<Rightarrow> (error + unit) \<times> MihomoCore" where
  "ParseControllerSettings file s =
     (case file of
        None \<Rightarrow> (Inr (), s)
      | Some content \<Rightarrow>
          (let parsed_controller =
                 (case controllerRegex content of
                    None \<Rightarrow> (Inr (), s)
                  | Some (host, port) \<Rightarrow>
                      (let s1 = s\<lparr>controllerHost := host\<rparr>
                       in if port \<noteq> [] then
                            (case stoi port of
                               Inl e \<Rightarrow> (Inl e, s1)
                             | Inr n \<Rightarrow> (Inr (), s1\<lparr>controllerPort := n\<rparr>))
                          else (Inr (), s1)))
           in case parsed_controller of
                (Inl e, s2) \<Rightarrow> (Inl e, s2)
              | (Inr _, s2) \<Rightarrow>
                  (case secretRegex content of
                     None \<Rightarrow> (Inr (), s2)
                   | Some secret \<Rightarrow> (Inr (), s2\<lparr>controllerSecret := secret\<rparr>))))"

subsection \<open>The control API\<close>

text \<open>
  \<^verbatim>\<open>HttpPut\<close>: \<open>answer\<close> is \<open>None\<close> when a WinHTTP call fails (the exception is
  caught inside), the status code read from the response otherwise. The result is the
  marker \<^verbatim>\<open>"success"\<close> for a status of 200 to 299 and the empty string otherwise.
  The body that \<^verbatim>\<open>HttpGet\<close> returns is a parameter of its callers.
\<close>

definition HttpPut :: "nat option \<Rightarrow> string" where
  "HttpPut answer =
     (case answer of
        None \<Rightarrow> []
      | Some statusCode \<Rightarrow> if 200 \<le> statusCode \<and> statusCode < 300 then ''success'' else [])"

definition GetTrafficStats :: "string \<Rightarrow> error + TrafficStats" where
  "GetTrafficStats response =
     (let stats = \<lparr>upload = 0, download = 0, uploadSpeed = 0, downloadSpeed = 0\<rparr>
      in if response \<noteq> [] then
           (case (case upRegex response of
                    None \<Rightarrow> Inr stats
                  | Some digits \<Rightarrow>
                      (case stoll digits of
                         Inl e \<Rightarrow> Inl e
                       | Inr n \<Rightarrow> Inr (stats\<lparr>upload := n\<rparr>))) of
              Inl e \<Rightarrow> Inl e
            | Inr stats1 \<Rightarrow>
                (case downRegex response of
                   None \<Rightarrow> Inr stats1
                 | Some digits \<Rightarrow>
                     (case stoll digits of
                        Inl e \<Rightarrow> Inl e
                      | Inr n \<Rightarrow> Inr (stats1\<lparr>download := n\<rparr>))))
         else Inr stats)"

subsection \<open>The traffic monitor\<close>

text \<open>
  \<^verbatim>\<open>(stats.upload - lastUpload_) / timeDelta\<close>, converted to \<^verbatim>\<open>int64_t\<close>: the
  subtraction is done in \<^verbatim>\<open>int64_t\<close>, its result converted to \<^verbatim>\<open>double\<close> and
  divided. Both counters come from \<^verbatim>\<open>std::stoll\<close> on a string of digits or are
  zero, so they lie between 0 and \<open>2 ^ 63 - 1\<close> and their difference is in range; for
  other operands \<open>sub_int64\<close> is the two's complement difference that the subtraction
  instruction gives.
\<close>

definition sub_int64 :: "int \<Rightarrow> int \<Rightarrow> int" where
  "sub_int64 a b = (a - b + 2 ^ 63) mod 2 ^ 64 - 2 ^ 63"

definition rate :: "int \<Rightarrow> int \<Rightarrow> double \<Rightarrow> int" where
  "rate current previous timeDelta =
     static_cast_int64 (double_div (double_of_int (sub_int64 current previous)) timeDelta)"

text \<open>
  One pass through the body of the loop in \<^verbatim>\<open>StartTrafficMonitor\<close>, up to the
  \<^verbatim>\<open>Sleep(1000)\<close>. \<open>response\<close> is the body \<^verbatim>\<open>HttpGet("/traffic")\<close> returns in
  this pass and \<open>now\<close> the value of \<^verbatim>\<open>GetTickCount64()\<close>. \<^verbatim>\<open>now - lastTime_\<close> is
  an unsigned 64 bit subtraction. Once \<^verbatim>\<open>GetTrafficStats\<close> has returned, nothing in
  the body leaves it before the three assignments at its end.
\<close>

definition traffic_cycle :: "string \<Rightarrow> 64 word \<Rightarrow> MihomoCore \<Rightarrow> (error + unit) \<times> MihomoCore \<times> effect list" where
  "traffic_cycle response now s =
     (if isRunning s \<and> trafficCallback s then
        (case GetTrafficStats response of
           Inl e \<Rightarrow> (Inl e, s, [])
         | Inr stats \<Rightarrow>
             (let timeDelta = double_div (double_of_int (uint (now - lastTime s))) (1000, 0)
              in if 0 < lastTime s \<and> double_pos timeDelta then
                   (let stats1 = stats\<lparr>uploadSpeed := rate (upload stats) (lastUpload s) timeDelta\<rparr>;
                        stats2 = stats1\<lparr>downloadSpeed := rate (download stats) (lastDownload s) timeDelta\<rparr>
                    in (Inr (),
                        s\<lparr>lastUpload := upload stats2, lastDownload := download stats2,
                          lastTime := now\<rparr>,
                        [TrafficEvent stats2]))
                 else
                   (Inr (),
                    s\<lparr>lastUpload := upload stats, lastDownload := download stats,
                      lastTime := now\<rparr>,
                    [])))
      else (Inr (), s, []))"

text \<open>
  The poller thread takes a pass only while it exists and reads \<^verbatim>\<open>stopMonitoring_\<close>
  as false at the head of its loop.
\<close>

definition poller_step :: "string \<Rightarrow> 64 word \<Rightarrow> MihomoCore \<Rightarrow> (error + unit) \<times> MihomoCore \<times> effect list" where
  "poller_step response now s =
     (if trafficThread s \<and> \<not> stopMonitoring s then traffic_cycle response now s
      else (Inr (), s, []))"

text \<open>Several passes in a row; an exception in the thread ends the process.\<close>

fun traffic_cycles :: "(string \<times> 64 word) list \<Rightarrow> MihomoCore \<Rightarrow> (error + unit) \<times> MihomoCore \<times> effect list" where
  "traffic_cycles [] s = (Inr (), s, [])"
| "traffic_cycles ((response, now) # rest) s =
     (case traffic_cycle response now s of
        (Inl e, s1, es) \<Rightarrow> (Inl e, s1, es)
      | (Inr _, s1, es) \<Rightarrow>
          (case traffic_cycles rest s1 of (r, s2, es2) \<Rightarrow> (r, s2, es @ es2)))"

definition StartTrafficMonitor :: "MihomoCore \<Rightarrow> (error + unit) \<times> MihomoCore \<times> effect list" where
  "StartTrafficMonitor s =
     (if trafficThread s then (Inl ThreadTerminate, s, [])
      else (Inr (), s\<lparr>trafficThread := True\<rparr>, [StartThread TrafficThread]))"

text \<open>
  \<^verbatim>\<open>StopMonitoring\<close> sets the flag and joins. \<open>inflight\<close> lists the passes of the
  poller that had read the flag as false before it was set: the join returns after they
  have run to their end.
\<close>

definition StopMonitoring :: "(string \<times> 64 word) list \<Rightarrow> MihomoCore \<Rightarrow> (error + unit) \<times> MihomoCore \<times> effect list" where
  "StopMonitoring inflight s =
     (let s1 = s\<lparr>stopMonitoring := True\<rparr>
      in case (if trafficThread s1 then
                 (case traffic_cycles inflight s1 of
                    (Inl e, s2, es) \<Rightarrow> (Inl e, s2, es)
                  | (Inr _, s2, es) \<Rightarrow>
                      (Inr (), s2\<lparr>trafficThread := False\<rparr>, es @ [JoinThread TrafficThread]))
               else (Inr (), s1, [])) of
           (Inl e, s3, es) \<Rightarrow> (Inl e, s3, es)
         | (Inr _, s3, es) \<Rightarrow>
             (if logThread s3 then (Inr (), s3\<lparr>logThread := False\<rparr>, es @ [JoinThread LogThread])
              else (Inr (), s3, es)))"

subsection \<open>Start, Stop and ReloadConfig\<close>

text \<open>
  \<open>file\<close> is the configuration file as for \<open>ParseControllerSettings\<close>. \<open>created\<close> is
  the answer of \<^verbatim>\<open>CreateProcessA\<close>: \<open>None\<close> when it fails, the process handle, the
  thread handle and the process id otherwise. \<open>exitCode\<close> is the answer of
  \<^verbatim>\<open>GetExitCodeProcess\<close> after the half second: \<open>None\<close> when the call fails, the
  exit code otherwise.
\<close>

definition STILL_ACTIVE :: nat where
  "STILL_ACTIVE = 259"

definition cmdLine :: "MihomoCore \<Rightarrow> string \<Rightarrow> string" where
  "cmdLine s path =
     [dquote] @ corePath s @ [dquote] @ '' -d '' @ [dquote] @ workDir s @ [dquote]
       @ '' -f '' @ [dquote] @ path @ [dquote]"

definition Start :: "string \<Rightarrow> string option \<Rightarrow> (nat \<times> nat \<times> nat) option \<Rightarrow> nat option \<Rightarrow> MihomoCore \<Rightarrow> (error + bool) \<times> MihomoCore \<times> effect list" where
  "Start path file created exitCode s =
     (if isRunning s then (Inr True, s, [])
      else
        (case ParseControllerSettings file (s\<lparr>configPath := path\<rparr>) of
           (Inl e, s1) \<Rightarrow> (Inl e, s1, [])
         | (Inr _, s1) \<Rightarrow>
             (case created of
                None \<Rightarrow>
                  (Inr False, s1,
                   [CreateProcessA (cmdLine s1 path) (workDir s1)]
                     @ notify_error s1 ''Failed to start core process'')
              | Some (hProcess, hThread, dwProcessId) \<Rightarrow>
                  (let s2 = s1\<lparr>processHandle := Some hProcess, processThread := Some hThread,
                               processId := dwProcessId\<rparr>;
                       es2 = [CreateProcessA (cmdLine s1 path) (workDir s1), Sleep 500]
                   in if (case exitCode of None \<Rightarrow> False | Some code \<Rightarrow> code \<noteq> STILL_ACTIVE) then
                        (Inr False, s2\<lparr>processHandle := None, processThread := None\<rparr>,
                         es2 @ notify_error s2 ''Core process exited immediately''
                           @ [CloseHandle hProcess, CloseHandle hThread])
                      else
                        (let s3 = s2\<lparr>isRunning := True, state := ''connected'',
                                     stopMonitoring := False\<rparr>;
                             es3 = es2 @ [StateAssigned ''connected''] @ notify_state s3
                         in case StartTrafficMonitor s3 of
                              (Inl e, s4, es) \<Rightarrow> (Inl e, s4, es3 @ es)
                            | (Inr _, s4, es) \<Rightarrow> (Inr True, s4, es3 @ es))))))"

text \<open>
  \<open>inflight\<close> is as for \<open>StopMonitoring\<close>; \<open>waited\<close> is what
  \<^verbatim>\<open>WaitForSingleObject\<close> returns (0 when the process has exited, 258 on timeout).
  The code does not look at it.
\<close>

definition Stop :: "(string \<times> 64 word) list \<Rightarrow> nat \<Rightarrow> MihomoCore \<Rightarrow> (error + bool) \<times> MihomoCore \<times> effect list" where
  "Stop inflight waited s =
     (if \<not> isRunning s then (Inr True, s, [])
      else
        (let s1 = s\<lparr>state := ''disconnecting''\<rparr>;
             es1 = [StateAssigned ''disconnecting''] @ notify_state s1
         in case StopMonitoring inflight s1 of
              (Inl e, s2, es2) \<Rightarrow> (Inl e, s2, es1 @ es2)
            | (Inr _, s2, es2) \<Rightarrow>
                (let (s3, es3) =
                       (case processHandle s2 of
                          None \<Rightarrow> (s2, [])
                        | Some h \<Rightarrow>
                            (s2\<lparr>processHandle := None\<rparr>,
                             [TerminateProcess h, WaitForSingleObject h 3000 waited, CloseHandle h]));
                     (s4, es4) =
                       (case processThread s3 of
                          None \<Rightarrow> (s3, [])
                        | Some t \<Rightarrow> (s3\<lparr>processThread := None\<rparr>, [CloseHandle t]));
                     s5 = s4\<lparr>processId := 0, isRunning := False, state := ''disconnected''\<rparr>
                 in (Inr True, s5,
                     es1 @ es2 @ es3 @ es4 @ [StateAssigned ''disconnected''] @ notify_state s5))))"

text \<open>\<open>answer\<close> is the outcome of the PUT, as for \<open>HttpPut\<close>.\<close>

definition ReloadConfig :: "string \<Rightarrow> nat option \<Rightarrow> string option \<Rightarrow> MihomoCore \<Rightarrow> (error + bool) \<times> MihomoCore \<times> effect list" where
  "ReloadConfig path answer file s =
     (let body = ''{'' @ [dquote] @ ''path'' @ [dquote] @ '':'' @ [dquote] @ path @ [dquote] @ ''}'';
          response = HttpPut answer;
          es = [HttpPutRequest ''/configs?force=true'' body]
      in if response \<noteq> [] then
           (case ParseControllerSettings file (s\<lparr>configPath := path\<rparr>) of
              (Inl e, s1) \<Rightarrow> (Inl e, s1, es)
            | (Inr _, s1) \<Rightarrow> (Inr True, s1, es))
         else (Inr False, s, es))"

subsection \<open>Sequences of calls\<close>

text \<open>
  The callers of the object and its poller thread, interleaved: a call of \<open>Start\<close>,
  \<open>Stop\<close> or \<open>ReloadConfig\<close> with what the environment answers during it, or a pass of
  the poller between two calls. An exception that leaves a call, and one raised in the
  poller thread, end the run.
\<close>

datatype call =
    CallStart string "string option" "(nat \<times> nat \<times> nat) option" "nat option"
  | CallStop "(string \<times> 64 word) list" nat
  | CallReloadConfig string "nat option" "string option"
  | PollerPass string "64 word"

fun forget :: "(error + 'a) \<times> MihomoCore \<times> effect list \<Rightarrow> (error + unit) \<times> MihomoCore \<times> effect list" where
  "forget (Inl e, s, es) = (Inl e, s, es)"
| "forget (Inr _, s, es) = (Inr (), s, es)"

fun perform :: "call \<Rightarrow> MihomoCore \<Rightarrow> (error + unit) \<times> MihomoCore \<times> effect list" where
  "perform (CallStart path file created exitCode) s = forget (Start path file created exitCode s)"
| "perform (CallStop inflight waited) s = forget (Stop inflight waited s)"
| "perform (CallReloadConfig path answer file) s = forget (ReloadConfig path answer file s)"
| "perform (PollerPass response now) s = poller_step response now s"

fun run :: "call list \<Rightarrow> MihomoCore \<Rightarrow> (error + unit) \<times> MihomoCore \<times> effect list" where
  "run [] s = (Inr (), s, [])"
| "run (c # cs) s =
     (case perform c s of
        (Inl e, s1, es) \<Rightarrow> (Inl e, s1, es)
      | (Inr _, s1, es) \<Rightarrow> (case run cs s1 of (r, s2, es2) \<Rightarrow> (r, s2, es @ es2)))"

subsection \<open>Observations on the actions\<close>

text \<open>
  The values assigned to \<^verbatim>\<open>state_\<close> and the values handed to the state observer,
  in order; the calls of an observer; the actions of the teardown in \<^verbatim>\<open>Stop\<close>.
\<close>

fun assigned :: "effect list \<Rightarrow> string list" where
  "assigned [] = []"
| "assigned (StateAssigned v # es) = v # assigned es"
| "assigned (e # es) = assigned es"

fun dispatched :: "effect list \<Rightarrow> string list" where
  "dispatched [] = []"
| "dispatched (StateEvent v # es) = v # dispatched es"
| "dispatched (e # es) = dispatched es"

fun observer_event :: "effect \<Rightarrow> bool" where
  "observer_event (StateEvent v) = True"
| "observer_event (TrafficEvent stats) = True"
| "observer_event e = False"

fun is_traffic_event :: "effect \<Rightarrow> bool" where
  "is_traffic_event (TrafficEvent stats) = True"
| "is_traffic_event e = False"

fun is_teardown :: "effect \<Rightarrow> bool" where
  "is_teardown (TerminateProcess h) = True"
| "is_teardown (WaitForSingleObject h ms r) = True"
| "is_teardown (CloseHandle h) = True"
| "is_teardown (StateAssigned v) = (v = ''disconnected'')"
| "is_teardown (StateEvent v) = (v = ''disconnected'')"
| "is_teardown e = False"

fun is_start :: "call \<Rightarrow> bool" where
  "is_start (CallStart path cfg created exitCode) = True"
| "is_start c = False"

text \<open>
  The path of the connection state, \<open>disconnected\<close> to \<open>connected\<close> to
  \<open>disconnecting\<close> to \<open>disconnected\<close>: \<open>follows_path a bs\<close> holds when the values
  \<open>bs\<close>, taken one after the other from \<open>a\<close>, only ever make one of these three
  steps.
\<close>

definition transition :: "string \<Rightarrow> string \<Rightarrow> bool" where
  "transition a b =
     ((a = ''disconnected'' \<and> b = ''connected'')
      \<or> (a = ''connected'' \<and> b = ''disconnecting'')
      \<or> (a = ''disconnecting'' \<and> b = ''disconnected''))"

fun follows_path :: "string \<Rightarrow> string list \<Rightarrow> bool" where
  "follows_path a [] = True"
| "follows_path a (b # bs) = (transition a b \<and> follows_path b bs)"

text \<open>Between two calls the state and the running flag agree.\<close>

definition consistent :: "MihomoCore \<Rightarrow> bool" where
  "consistent s = (state s = (if isRunning s then ''connected'' else ''disconnected''))"

subsection \<open>The rate in exact arithmetic\<close>

text \<open>
  The rate as the specification words it: the difference of the two cumulative counters
  divided by the elapsed seconds, truncated to an integer. The elapsed time is given in
  milliseconds, as \<^verbatim>\<open>GetTickCount64\<close> counts it. \<open>trunc_div\<close> is the integer
  division of C, which truncates towards zero, and \<open>trunc_real\<close> the truncation of a
  real number.
\<close>

definition trunc_real :: "real \<Rightarrow> int" where
  "trunc_real r = (if 0 \<le> r then \<lfloor>r\<rfloor> else \<lceil>r\<rceil>)"

definition trunc_div :: "int \<Rightarrow> int \<Rightarrow> int" where
  "trunc_div n d = (if (n < 0) = (d < 0) then \<bar>n\<bar> div \<bar>d\<bar> else - (\<bar>n\<bar> div \<bar>d\<bar>))"

definition exact_rate :: "int \<Rightarrow> int \<Rightarrow> int \<Rightarrow> int" where
  "exact_rate current previous elapsed_ms = trunc_div (1000 * (current - previous)) elapsed_ms"

text \<open>
  \<open>truncated_rate v\<close>: \<open>v\<close> is that truncated quotient, or, when the quotient is a whole
  number, the whole number next to it towards zero.
\<close>

definition truncated_rate :: "int \<Rightarrow> int \<Rightarrow> int \<Rightarrow> int \<Rightarrow> bool" where
  "truncated_rate v current previous elapsed_ms =
     (v = exact_rate current previous elapsed_ms
      \<or> (elapsed_ms dvd 1000 * (current - previous)
          \<and> v = exact_rate current previous elapsed_ms - sgn (current - previous)))"

subsection \<open>Example inputs\<close>

text \<open>
  A configuration file and a response of \<^verbatim>\<open>GET /traffic\<close>; a new object with the
  state and traffic observers registered; that object after a successful
  \<^verbatim>\<open>Start\<close>, after its first sample, and after two passes of the poller; a new
  object after its configuration has been read; and a session of two starts with a stop
  between them.
\<close>

definition example_config :: string where
  "example_config = ''external-controller: 127.0.0.1:9097'' @ [CHR 0x0A] @ ''secret: abc123''"

definition traffic_json :: "string \<Rightarrow> string \<Rightarrow> string" where
  "traffic_json up down =
     ''{'' @ [dquote] @ ''up'' @ [dquote] @ '':'' @ up @ '','' @ [dquote] @ ''down'' @ [dquote] @ '':'' @ down @ ''}''"

definition observed_new :: MihomoCore where
  "observed_new = MihomoCore_new\<lparr>stateCallback := True, trafficCallback := True\<rparr>"

definition connected_example :: MihomoCore where
  "connected_example =
     fst (snd (Start ''config.yaml'' (Some example_config) (Some (11, 12, 13)) (Some STILL_ACTIVE)
       (MihomoCore_new\<lparr>stateCallback := True, trafficCallback := True\<rparr>)))"

definition sampled_example :: MihomoCore where
  "sampled_example = connected_example\<lparr>lastUpload := 1000, lastDownload := 2000, lastTime := 5000\<rparr>"

definition polled_example :: MihomoCore where
  "polled_example =
     fst (snd (run [PollerPass (traffic_json ''1000'' ''2000'') 5000,
                    PollerPass (traffic_json ''1500'' ''2400'') 6000] connected_example))"

definition parsed_example :: MihomoCore where
  "parsed_example = snd (ParseControllerSettings (Some example_config) MihomoCore_new)"

definition example_calls :: "call list" where
  "example_calls =
     [CallStart ''config.yaml'' (Some example_config) (Some (11, 12, 13)) (Some STILL_ACTIVE),
      PollerPass (traffic_json ''1000'' ''2000'') 5000,
      PollerPass (traffic_json ''1500'' ''2400'') 6000,
      CallStop [] 0,
      CallStart ''config.yaml'' (Some example_config) (Some (21, 22, 23)) (Some STILL_ACTIVE),
      PollerPass (traffic_json ''10'' ''20'') 60000]"

section \<open>Properties\<close>

subsection \<open>The examples, evaluated\<close>

lemma connected_example_eq:
  "connected_example = MihomoCore_new\<lparr>configPath := ''config.yaml'', state := ''connected'',
      controllerPort := 9097, controllerSecret := ''abc123'',
      processHandle := Some 11, processThread := Some 12, processId := 13,
      isRunning := True, trafficThread := True, stateCallback := True, trafficCallback := True\<rparr>"
  by code_simp

lemma polled_example_eq:
  "polled_example = connected_example\<lparr>lastUpload := 1500, lastDownload := 2400, lastTime := 6000\<rparr>"
  by code_simp

lemma parsed_example_eq:
  "parsed_example = MihomoCore_new\<lparr>controllerPort := 9097, controllerSecret := ''abc123''\<rparr>"
  by code_simp

lemma example_calls_effects:
  "snd (snd (run example_calls observed_new)) =
     [CreateProcessA (cmdLine observed_new ''config.yaml'') [], Sleep 500,
      StateAssigned ''connected'', StateEvent ''connected'', StartThread TrafficThread,
      TrafficEvent \<lparr>upload = 1500, download = 2400, uploadSpeed = 500, downloadSpeed = 400\<rparr>,
      StateAssigned ''disconnecting'', StateEvent ''disconnecting'', JoinThread TrafficThread,
      TerminateProcess 11, WaitForSingleObject 11 3000 0, CloseHandle 11, CloseHandle 12,
      StateAssigned ''disconnected'', StateEvent ''disconnected'',
      CreateProcessA (cmdLine observed_new ''config.yaml'') [], Sleep 500,
      StateAssigned ''connected'', StateEvent ''connected'', StartThread TrafficThread,
      TrafficEvent \<lparr>upload = 10, download = 20, uploadSpeed = - 27, downloadSpeed = - 44\<rparr>]"
  by code_simp

lemma sampled_example_cycle:
  "traffic_cycle (traffic_json ''1500'' ''2400'') 6000 sampled_example =
     (Inr (), sampled_example\<lparr>lastUpload := 1500, lastDownload := 2400, lastTime := 6000\<rparr>,
      [TrafficEvent \<lparr>upload = 1500, download = 2400, uploadSpeed = 500, downloadSpeed = 400\<rparr>])"
  by code_simp

subsection \<open>Lists of actions\<close>

lemma assigned_append: "assigned (xs @ ys) = assigned xs @ assigned ys"
  by (induction xs rule: assigned.induct) auto

lemma dispatched_append: "dispatched (xs @ ys) = dispatched xs @ dispatched ys"
  by (induction xs rule: dispatched.induct) auto

lemma traffic_events_assigned:
  "list_all is_traffic_event es \<Longrightarrow> assigned es = [] \<and> dispatched es = []"
proof (induction es)
  case Nil
  then show ?case by simp
next
  case (Cons e es)
  then show ?case by (cases e) auto
qed

lemma notify_error_quiet [simp]:
  "assigned (notify_error s msg) = []" "dispatched (notify_error s msg) = []"
  by (simp_all add: notify_error_def)

lemma follows_path_append:
  "follows_path a (xs @ ys) = (follows_path a xs \<and> follows_path (last (a # xs)) ys)"
  by (induction xs arbitrary: a) auto

subsection \<open>What a pass of the poller changes\<close>

lemma traffic_cycle_frame:
  "traffic_cycle response now s = (r, s', es) \<Longrightarrow>
   s' = s\<lparr>lastUpload := lastUpload s', lastDownload := lastDownload s', lastTime := lastTime s'\<rparr>"
  unfolding traffic_cycle_def Let_def
  by (simp split: if_splits sum.splits) auto

lemma traffic_cycles_frame:
  "traffic_cycles inflight s = (r, s', es) \<Longrightarrow>
   s' = s\<lparr>lastUpload := lastUpload s', lastDownload := lastDownload s', lastTime := lastTime s'\<rparr>"
proof (induction inflight arbitrary: s r s' es)
  case Nil
  then show ?case by simp
next
  case (Cons a inflight)
  obtain response now where a: "a = (response, now)" by (cases a)
  obtain r1 s1 es1 where c: "traffic_cycle response now s = (r1, s1, es1)"
    by (cases "traffic_cycle response now s")
  note f1 = traffic_cycle_frame [OF c]
  show ?case
  proof (cases r1)
    case (Inl e)
    with Cons.prems a c have "s' = s1" by simp
    with f1 show ?thesis by simp
  next
    case (Inr u)
    obtain r2 s2 es2 where d: "traffic_cycles inflight s1 = (r2, s2, es2)"
      by (cases "traffic_cycles inflight s1")
    with Cons.prems a c Inr have e: "s' = s2" by simp
    have "s2 = s1\<lparr>lastUpload := lastUpload s2, lastDownload := lastDownload s2, lastTime := lastTime s2\<rparr>"
      by (rule Cons.IH [OF d])
    also have "\<dots> = s\<lparr>lastUpload := lastUpload s2, lastDownload := lastDownload s2, lastTime := lastTime s2\<rparr>"
      by (subst f1) simp
    finally show ?thesis using e by simp
  qed
qed

lemma traffic_cycles_fields:
  assumes "traffic_cycles inflight s = (r, s', es)"
  shows "processHandle s' = processHandle s" "processThread s' = processThread s"
    "isRunning s' = isRunning s" "state s' = state s" "stopMonitoring s' = stopMonitoring s"
    "trafficThread s' = trafficThread s" "logThread s' = logThread s"
    "stateCallback s' = stateCallback s" "trafficCallback s' = trafficCallback s"
    "processId s' = processId s"
  by (subst traffic_cycles_frame [OF assms], simp)+

lemma traffic_cycle_effects:
  "traffic_cycle response now s = (r, s', es) \<Longrightarrow> es = [] \<or> (\<exists>stats. es = [TrafficEvent stats])"
  unfolding traffic_cycle_def Let_def
  by (simp split: if_splits sum.splits) auto

lemma traffic_cycle_quiet:
  "\<not> isRunning s \<Longrightarrow> traffic_cycle response now s = (Inr (), s, [])"
  by (simp add: traffic_cycle_def)

lemma traffic_cycles_effects:
  "traffic_cycles inflight s = (r, s', es) \<Longrightarrow> list_all is_traffic_event es"
proof (induction inflight arbitrary: s r s' es)
  case Nil
  then show ?case by simp
next
  case (Cons a inflight)
  obtain response now where a: "a = (response, now)" by (cases a)
  obtain r1 s1 es1 where c: "traffic_cycle response now s = (r1, s1, es1)"
    by (cases "traffic_cycle response now s")
  from traffic_cycle_effects [OF c] have e1: "list_all is_traffic_event es1" by auto
  show ?case
  proof (cases r1)
    case (Inl e)
    with Cons.prems a c e1 show ?thesis by simp
  next
    case (Inr u)
    obtain r2 s2 es2 where d: "traffic_cycles inflight s1 = (r2, s2, es2)"
      by (cases "traffic_cycles inflight s1")
    from Cons.IH [OF d] e1 Cons.prems a c Inr d show ?thesis by auto
  qed
qed

lemma traffic_cycle_state_irrelevant:
  "traffic_cycle response now (s\<lparr>state := a, stopMonitoring := b\<rparr>) =
     (case traffic_cycle response now s of (r, s', es) \<Rightarrow> (r, s'\<lparr>state := a, stopMonitoring := b\<rparr>, es))"
  unfolding traffic_cycle_def Let_def
  by (auto split: sum.splits)

lemma traffic_cycles_state_irrelevant:
  "traffic_cycles inflight (s\<lparr>state := a, stopMonitoring := b\<rparr>) =
     (case traffic_cycles inflight s of (r, s', es) \<Rightarrow> (r, s'\<lparr>state := a, stopMonitoring := b\<rparr>, es))"
proof (induction inflight arbitrary: s)
  case Nil
  then show ?case by simp
next
  case (Cons p inflight)
  obtain response now where p: "p = (response, now)" by (cases p)
  obtain r1 s1 es1 where c: "traffic_cycle response now s = (r1, s1, es1)"
    by (cases "traffic_cycle response now s")
  show ?case
    by (cases r1) (simp_all add: p c traffic_cycle_state_irrelevant Cons.IH split: prod.splits)
qed

lemma traffic_cycles_disconnecting:
  "traffic_cycles inflight (s\<lparr>state := a, stopMonitoring := b\<rparr>) = (r, sc, esc) \<Longrightarrow>
   sc = (fst (snd (traffic_cycles inflight s)))\<lparr>state := a, stopMonitoring := b\<rparr>"
  by (simp add: traffic_cycles_state_irrelevant split: prod.splits)

lemma first_cycle_without_baseline:
  "lastTime s = 0 \<Longrightarrow> snd (snd (traffic_cycle response now s)) = []"
  unfolding traffic_cycle_def Let_def
  by (simp split: sum.splits)

lemma poller_step_quiet:
  assumes "poller_step response now s = (r, s', es)"
  shows "assigned es = [] \<and> dispatched es = [] \<and> isRunning s' = isRunning s
     \<and> state s' = state s \<and> stateCallback s' = stateCallback s"
proof -
  have c: "traffic_cycles [(response, now)] s = (case traffic_cycle response now s of
      (Inl e, s1, es1) \<Rightarrow> (Inl e, s1, es1) | (Inr u, s1, es1) \<Rightarrow> (Inr (), s1, es1))"
    by (simp split: prod.splits sum.splits)
  show ?thesis
  proof (cases "trafficThread s \<and> \<not> stopMonitoring s")
    case False
    with assms show ?thesis by (auto simp: poller_step_def)
  next
    case True
    with assms have t: "traffic_cycle response now s = (r, s', es)"
      by (simp add: poller_step_def)
    have "traffic_cycles [(response, now)] s = (r, s', es)"
      by (cases r) (simp_all add: t)
    from traffic_cycles_fields [OF this] traffic_events_assigned [OF traffic_cycles_effects [OF this]]
    show ?thesis by simp
  qed
qed

lemma poller_pass_advances:
  "trafficThread s \<Longrightarrow> \<not> stopMonitoring s \<Longrightarrow> isRunning s \<Longrightarrow> trafficCallback s \<Longrightarrow>
   GetTrafficStats response = Inr stats \<Longrightarrow>
   \<exists>es. poller_step response now s =
          (Inr (),
           s\<lparr>lastUpload := upload stats, lastDownload := download stats, lastTime := now\<rparr>,
           es)
        \<and> (es = [] \<or> (\<exists>up down. es = [TrafficEvent (stats\<lparr>uploadSpeed := up, downloadSpeed := down\<rparr>)]))"
  unfolding poller_step_def traffic_cycle_def Let_def
  by simp blast

lemma poller_pass_faults:
  "trafficThread s \<Longrightarrow> \<not> stopMonitoring s \<Longrightarrow> isRunning s \<Longrightarrow> trafficCallback s \<Longrightarrow>
   GetTrafficStats response = Inl e \<Longrightarrow>
   poller_step response now s = (Inl e, s, [])"
  unfolding poller_step_def traffic_cycle_def Let_def
  by simp

text \<open>
  Claim C5, amended. In every pass of the poller thread in which the running flag is set
  and a traffic observer is registered, and in which \<^verbatim>\<open>GetTrafficStats\<close> returns a
  snapshot, the pass runs to its end and the stored previous upload, download and time
  become those of the snapshot and the tick count of the pass, whether the pass called
  the traffic observer or not. \<^verbatim>\<open>GetTrafficStats\<close> returns no snapshot only when
  \<^verbatim>\<open>std::stoll\<close> throws on a counter beyond \<^verbatim>\<open>int64_t\<close>; the exception then
  leaves the thread with the stored sample as it was. A pass with the running flag clear
  or without a registered traffic observer fetches nothing and leaves the stored sample
  as it is.
\<close>

theorem previous_sample_advanced:
  "(trafficThread s \<and> \<not> stopMonitoring s \<and> isRunning s \<and> trafficCallback s
      \<and> GetTrafficStats response = Inr stats
    \<longrightarrow> (\<exists>es. poller_step response now s =
               (Inr (),
                s\<lparr>lastUpload := upload stats, lastDownload := download stats, lastTime := now\<rparr>,
                es)
             \<and> (es = [] \<or> (\<exists>up down. es = [TrafficEvent (stats\<lparr>uploadSpeed := up, downloadSpeed := down\<rparr>)]))))
   \<and> (trafficThread s \<and> \<not> stopMonitoring s \<and> isRunning s \<and> trafficCallback s
      \<and> GetTrafficStats response = Inl e
    \<longrightarrow> poller_step response now s = (Inl e, s, []))
   \<and> (\<not> (isRunning s \<and> trafficCallback s) \<longrightarrow> poller_step response now s = (Inr (), s, []))"
proof -
  have a: "trafficThread s \<and> \<not> stopMonitoring s \<and> isRunning s \<and> trafficCallback s
      \<and> GetTrafficStats response = Inr stats
    \<longrightarrow> (\<exists>es. poller_step response now s =
               (Inr (),
                s\<lparr>lastUpload := upload stats, lastDownload := download stats, lastTime := now\<rparr>,
                es)
             \<and> (es = [] \<or> (\<exists>up down. es = [TrafficEvent (stats\<lparr>uploadSpeed := up, downloadSpeed := down\<rparr>)])))"
    using poller_pass_advances [of s response stats now] by blast
  have b: "trafficThread s \<and> \<not> stopMonitoring s \<and> isRunning s \<and> trafficCallback s
      \<and> GetTrafficStats response = Inl e
    \<longrightarrow> poller_step response now s = (Inl e, s, [])"
    using poller_pass_faults [of s response e now] by blast
  have c: "\<not> (isRunning s \<and> trafficCallback s) \<longrightarrow> poller_step response now s = (Inr (), s, [])"
    by (auto simp: poller_step_def traffic_cycle_def)
  from a b c show ?thesis by (intro conjI)
qed

theorem previous_sample_advanced_witness:
  "trafficThread connected_example \<and> \<not> stopMonitoring connected_example
   \<and> isRunning connected_example \<and> trafficCallback connected_example
   \<and> GetTrafficStats (traffic_json ''1000'' ''2000'')
       = Inr \<lparr>upload = 1000, download = 2000, uploadSpeed = 0, downloadSpeed = 0\<rparr>
   \<and> (\<exists>es. poller_step (traffic_json ''1000'' ''2000'') 5000 connected_example
       = (Inr (), sampled_example, es))
   \<and> GetTrafficStats (traffic_json ''9223372036854775808'' ''2000'') = Inl OutOfRange
   \<and> poller_step (traffic_json ''9223372036854775808'' ''2000'') 5000 connected_example
       = (Inl OutOfRange, connected_example, [])
   \<and> poller_step (traffic_json ''1000'' ''2000'') 5000 (connected_example\<lparr>trafficCallback := False\<rparr>)
       = (Inr (), connected_example\<lparr>trafficCallback := False\<rparr>, [])"
proof -
  have h1: "trafficThread connected_example" "\<not> stopMonitoring connected_example"
    "isRunning connected_example" "trafficCallback connected_example"
    by (simp_all add: connected_example_eq MihomoCore_new_def)
  have h2: "GetTrafficStats (traffic_json ''1000'' ''2000'')
       = Inr \<lparr>upload = 1000, download = 2000, uploadSpeed = 0, downloadSpeed = 0\<rparr>"
    by code_simp
  have h3: "GetTrafficStats (traffic_json ''9223372036854775808'' ''2000'') = Inl OutOfRange"
    by code_simp
  from previous_sample_advanced [of connected_example "traffic_json ''1000'' ''2000''"
      "\<lparr>upload = 1000, download = 2000, uploadSpeed = 0, downloadSpeed = 0\<rparr>" 5000]
    previous_sample_advanced [of connected_example "traffic_json ''9223372036854775808'' ''2000''"
      _ 5000 OutOfRange]
    previous_sample_advanced [of "connected_example\<lparr>trafficCallback := False\<rparr>"
      "traffic_json ''1000'' ''2000''" _ 5000]
    h1 h2 h3
  show ?thesis by (simp add: sampled_example_def) blast
qed

text \<open>
  The claim speaks of every pass. With no traffic observer registered the pass is
  skipped by the guard of the loop body: the stored sample stays at zero although the
  engine would have answered with the counters 1000 and 2000.
\<close>

theorem sample_not_advanced_counterexample:
  "trafficThread (connected_example\<lparr>trafficCallback := False\<rparr>)
   \<and> \<not> stopMonitoring (connected_example\<lparr>trafficCallback := False\<rparr>)
   \<and> isRunning (connected_example\<lparr>trafficCallback := False\<rparr>)
   \<and> GetTrafficStats (traffic_json ''1000'' ''2000'')
       = Inr \<lparr>upload = 1000, download = 2000, uploadSpeed = 0, downloadSpeed = 0\<rparr>
   \<and> lastUpload (fst (snd (poller_step (traffic_json ''1000'' ''2000'') 5000
         (connected_example\<lparr>trafficCallback := False\<rparr>)))) = 0
   \<and> lastDownload (fst (snd (poller_step (traffic_json ''1000'' ''2000'') 5000
         (connected_example\<lparr>trafficCallback := False\<rparr>)))) = 0
   \<and> lastTime (fst (snd (poller_step (traffic_json ''1000'' ''2000'') 5000
         (connected_example\<lparr>trafficCallback := False\<rparr>)))) = 0"
  by code_simp

text \<open>
  A pass whose rate lies beyond \<^verbatim>\<open>int64_t\<close> advances the stored sample like any
  other: with the sample 1000 at tick 5000 and the counter \<open>2 ^ 63 - 1\<close> one millisecond
  later, the observer is called and the stored sample becomes that counter and tick 5001.
\<close>

lemma pass_beyond_int64:
  "poller_step (traffic_json ''9223372036854775807'' ''2000'') 5001 sampled_example
     = (Inr (),
        sampled_example\<lparr>lastUpload := 9223372036854775807, lastDownload := 2000, lastTime := 5001\<rparr>,
        [TrafficEvent \<lparr>upload = 9223372036854775807, download = 2000,
           uploadSpeed = int64_indefinite, downloadSpeed = 0\<rparr>])"
  by code_simp

subsection \<open>ParseControllerSettings\<close>

lemma ParseControllerSettings_frame:
  "ParseControllerSettings file s = (r, s') \<Longrightarrow>
   s' = s\<lparr>controllerHost := controllerHost s', controllerPort := controllerPort s',
          controllerSecret := controllerSecret s'\<rparr>"
  unfolding ParseControllerSettings_def Let_def
  by (simp split: option.splits prod.splits sum.splits if_splits) auto

lemma ParseControllerSettings_fields:
  assumes "ParseControllerSettings file s = (r, s')"
  shows "isRunning s' = isRunning s" "state s' = state s" "stateCallback s' = stateCallback s"
    "trafficThread s' = trafficThread s" "lastUpload s' = lastUpload s"
    "lastDownload s' = lastDownload s" "lastTime s' = lastTime s"
    "configPath s' = configPath s" "errorCallback s' = errorCallback s"
    "trafficCallback s' = trafficCallback s" "stopMonitoring s' = stopMonitoring s"
  by (subst ParseControllerSettings_frame [OF assms], simp)+

text \<open>
  Claim C4, amended. A configuration file that cannot be opened leaves the object as it
  is. When the file opens and the pattern for \<^verbatim>\<open>external-controller\<close> finds no port
  (it does not match, or its port group is empty), the port held before is kept. When the
  pattern for \<^verbatim>\<open>secret\<close> does not match, the secret held before is kept: it is not
  cleared. A new object holds the host 127.0.0.1, the port 9090 and an empty secret.
\<close>

theorem ParseControllerSettings_retains:
  "ParseControllerSettings None s = (Inr (), s)
   \<and> (controllerRegex content = None \<or> (\<exists>host. controllerRegex content = Some (host, []))
        \<longrightarrow> controllerPort (snd (ParseControllerSettings (Some content) s)) = controllerPort s)
   \<and> (secretRegex content = None
        \<longrightarrow> controllerSecret (snd (ParseControllerSettings (Some content) s)) = controllerSecret s)
   \<and> controllerHost MihomoCore_new = ''127.0.0.1''
   \<and> controllerPort MihomoCore_new = 9090
   \<and> controllerSecret MihomoCore_new = []"
  by (auto simp: ParseControllerSettings_def MihomoCore_new_def Let_def
      split: option.splits sum.splits prod.splits)

theorem ParseControllerSettings_retains_witness:
  "ParseControllerSettings None parsed_example = (Inr (), parsed_example)
   \<and> controllerRegex ''external-controller: localhost'' = Some (''localhost'', [])
   \<and> controllerPort (snd (ParseControllerSettings (Some ''external-controller: localhost'')
        parsed_example)) = 9097
   \<and> secretRegex ''external-controller: localhost'' = None
   \<and> controllerSecret (snd (ParseControllerSettings (Some ''external-controller: localhost'')
        parsed_example)) = ''abc123''"
proof -
  have h1: "controllerRegex ''external-controller: localhost'' = Some (''localhost'', [])"
    by code_simp
  have h2: "secretRegex ''external-controller: localhost'' = None"
    by code_simp
  from ParseControllerSettings_retains [of parsed_example "''external-controller: localhost''"] h1 h2
  show ?thesis by (simp add: parsed_example_eq)
qed

text \<open>
  The claim as the specification states it, that a file without a secret leaves the
  secret empty, fails once a secret has been read: after \<open>example_config\<close>, a file that
  names only the controller leaves the secret \<^verbatim>\<open>abc123\<close> in place.
\<close>

theorem secret_not_cleared_counterexample:
  "secretRegex ''external-controller: localhost'' = None
   \<and> controllerSecret (snd (ParseControllerSettings (Some ''external-controller: localhost'')
        (snd (ParseControllerSettings (Some example_config) MihomoCore_new)))) = ''abc123''"
  by code_simp

subsection \<open>Start\<close>

text \<open>
  Claim C7. \<^verbatim>\<open>Start\<close> on an object whose running flag is set returns true at once:
  the object is unchanged and nothing is done, so no process is created, no state is
  assigned and no observer is called.
\<close>

theorem Start_idempotent:
  "isRunning s \<Longrightarrow> Start path file created exitCode s = (Inr True, s, [])"
  by (simp add: Start_def)

theorem Start_idempotent_witness:
  "isRunning connected_example
   \<and> Start ''other.yaml'' None (Some (21, 22, 23)) None connected_example = (Inr True, connected_example, [])"
proof -
  have h: "isRunning connected_example"
    by (simp add: connected_example_eq)
  from Start_idempotent [OF h, of "''other.yaml''" None "Some (21, 22, 23)" None] h
  show ?thesis by simp
qed

lemma Start_cases:
  assumes nr: "\<not> isRunning s"
    and p: "ParseControllerSettings file (s\<lparr>configPath := path\<rparr>) = (rp, sp)"
  shows "Start path file created exitCode s =
    (case rp of
       Inl e \<Rightarrow> (Inl e, sp, [])
     | Inr u \<Rightarrow>
        (case created of
           None \<Rightarrow> (Inr False, sp, [CreateProcessA (cmdLine sp path) (workDir sp)]
                       @ notify_error sp ''Failed to start core process'')
         | Some (hProcess, hThread, dwProcessId) \<Rightarrow>
             if (case exitCode of None \<Rightarrow> False | Some code \<Rightarrow> code \<noteq> STILL_ACTIVE) then
               (Inr False, sp\<lparr>processHandle := None, processThread := None, processId := dwProcessId\<rparr>,
                [CreateProcessA (cmdLine sp path) (workDir sp), Sleep 500]
                  @ notify_error sp ''Core process exited immediately''
                  @ [CloseHandle hProcess, CloseHandle hThread])
             else if trafficThread s then
               (Inl ThreadTerminate,
                sp\<lparr>processHandle := Some hProcess, processThread := Some hThread,
                   processId := dwProcessId, isRunning := True, state := ''connected'',
                   stopMonitoring := False\<rparr>,
                [CreateProcessA (cmdLine sp path) (workDir sp), Sleep 500, StateAssigned ''connected'']
                  @ (if stateCallback s then [StateEvent ''connected''] else []))
             else
               (Inr True,
                sp\<lparr>processHandle := Some hProcess, processThread := Some hThread,
                   processId := dwProcessId, isRunning := True, state := ''connected'',
                   stopMonitoring := False, trafficThread := True\<rparr>,
                [CreateProcessA (cmdLine sp path) (workDir sp), Sleep 500, StateAssigned ''connected'']
                  @ (if stateCallback s then [StateEvent ''connected''] else [])
                  @ [StartThread TrafficThread])))"
proof -
  note f = ParseControllerSettings_fields [OF p]
  show ?thesis
  proof (cases rp)
    case (Inl e)
    then show ?thesis using nr by (simp add: Start_def p)
  next
    case (Inr u)
    show ?thesis
    proof (cases created)
      case None
      then show ?thesis using nr Inr by (simp add: Start_def p)
    next
      case (Some c)
      obtain h t i where c: "c = (h, t, i)" by (cases c)
      show ?thesis
        using nr Inr Some c f(3,4)
        by (simp add: Start_def p Let_def notify_error_def notify_state_def StartTrafficMonitor_def cmdLine_def)
    qed
  qed
qed

lemma Start_step:
  assumes nr: "\<not> isRunning s" and st: "Start path file created exitCode s = (r, s', es)"
  shows "(assigned es = [] \<and> dispatched es = [] \<and> \<not> isRunning s' \<and> state s' = state s \<and> r \<noteq> Inr True
          \<or> assigned es = [''connected''] \<and> dispatched es = (if stateCallback s then [''connected''] else [])
              \<and> isRunning s' \<and> state s' = ''connected'' \<and> (r = Inr True \<or> r = Inl ThreadTerminate))
         \<and> stateCallback s' = stateCallback s
         \<and> lastUpload s' = lastUpload s \<and> lastDownload s' = lastDownload s \<and> lastTime s' = lastTime s"
proof -
  obtain rp sp where p: "ParseControllerSettings file (s\<lparr>configPath := path\<rparr>) = (rp, sp)"
    by (cases "ParseControllerSettings file (s\<lparr>configPath := path\<rparr>)")
  note f = ParseControllerSettings_fields [OF p]
  have f': "isRunning sp = isRunning s" "state sp = state s" "stateCallback sp = stateCallback s"
    "lastUpload sp = lastUpload s" "lastDownload sp = lastDownload s" "lastTime sp = lastTime s"
    using f by simp_all
  show ?thesis
  proof (cases rp)
    case (Inl e)
    with st nr f' show ?thesis by (auto simp: Start_cases [OF nr p])
  next
    case (Inr u)
    show ?thesis
    proof (cases created)
      case None
      with st nr f' Inr show ?thesis
        by (auto simp: Start_cases [OF nr p] assigned_append dispatched_append)
    next
      case (Some c)
      obtain h t i where c: "c = (h, t, i)" by (cases c)
      show ?thesis
      proof (cases "case exitCode of None \<Rightarrow> False | Some code \<Rightarrow> code \<noteq> STILL_ACTIVE")
        case True
        with st nr f' Inr Some c show ?thesis
          by (auto simp: Start_cases [OF nr p] assigned_append dispatched_append)
      next
        case False
        with st nr f' Inr Some c show ?thesis
          by (simp add: Start_cases [OF nr p] assigned_append dispatched_append split: if_splits) auto
      qed
    qed
  qed
qed

subsection \<open>Stop\<close>

lemma Stop_not_running:
  "\<not> isRunning s \<Longrightarrow> Stop inflight waited s = (Inr True, s, [])"
  by (simp add: Stop_def)

lemma Stop_running:
  assumes run: "isRunning s"
    and cyc: "traffic_cycles inflight (s\<lparr>state := ''disconnecting'', stopMonitoring := True\<rparr>) = (r, sc, esc)"
  shows "Stop inflight waited s =
     (if trafficThread s \<and> r \<noteq> Inr () then (Inl (projl r), sc, [StateAssigned ''disconnecting''] @ notify_state (s\<lparr>state := ''disconnecting''\<rparr>) @ esc)
      else
        (let s2 = (if trafficThread s then sc else s\<lparr>state := ''disconnecting'', stopMonitoring := True\<rparr>);
             s5 = s2\<lparr>trafficThread := False, logThread := False, processHandle := None, processThread := None,
                    processId := 0, isRunning := False, state := ''disconnected''\<rparr>
         in (Inr True, s5,
             [StateAssigned ''disconnecting''] @ notify_state (s\<lparr>state := ''disconnecting''\<rparr>)
               @ (if trafficThread s then esc @ [JoinThread TrafficThread] else [])
               @ (if logThread s then [JoinThread LogThread] else [])
               @ (case processHandle s of None \<Rightarrow> []
                  | Some h \<Rightarrow> [TerminateProcess h, WaitForSingleObject h 3000 waited, CloseHandle h])
               @ (case processThread s of None \<Rightarrow> [] | Some t \<Rightarrow> [CloseHandle t])
               @ [StateAssigned ''disconnected''] @ notify_state (s5))))"
proof -
  note f = traffic_cycles_fields [OF cyc]
  show ?thesis
  proof (cases r)
    case (Inl e)
    then show ?thesis using run cyc f
      by (simp add: Stop_def StopMonitoring_def Let_def notify_state_def split: option.splits)
  next
    case (Inr u)
    then show ?thesis using run cyc f
      by (simp add: Stop_def StopMonitoring_def Let_def notify_state_def split: option.splits)
  qed
qed

text \<open>
  Claim C8. \<^verbatim>\<open>Stop\<close> on an object that is not running returns true and changes
  nothing. \<^verbatim>\<open>Stop\<close> never returns false: it returns true whenever the passes of the
  poller that it joins run to their end (an exception in the poller thread is the only
  other outcome, and it ends the process), and always when no pass is in flight. When it
  returns from a running object the process handle is null and has been closed, whatever
  \<^verbatim>\<open>WaitForSingleObject\<close> answered. A second \<^verbatim>\<open>Stop\<close> changes nothing.
\<close>

theorem Stop_idempotent_total:
  "(\<not> isRunning s \<longrightarrow> Stop inflight waited s = (Inr True, s, []))
   \<and> fst (Stop inflight waited s) \<noteq> Inr False
   \<and> (fst (traffic_cycles inflight (s\<lparr>state := ''disconnecting'', stopMonitoring := True\<rparr>)) = Inr ()
        \<longrightarrow> fst (Stop inflight waited s) = Inr True)
   \<and> fst (Stop [] waited s) = Inr True
   \<and> (isRunning s \<and> fst (Stop inflight waited s) = Inr True \<longrightarrow>
        processHandle (fst (snd (Stop inflight waited s))) = None
        \<and> (\<forall>h. processHandle s = Some h \<longrightarrow>
              CloseHandle h \<in> set (snd (snd (Stop inflight waited s)))))
   \<and> (fst (Stop inflight waited s) = Inr True \<longrightarrow>
        Stop inflight' waited' (fst (snd (Stop inflight waited s)))
          = (Inr True, fst (snd (Stop inflight waited s)), []))"
proof (cases "isRunning s")
  case False
  then show ?thesis by (simp add: Stop_not_running)
next
  case True
  obtain r sc esc where
    cyc: "traffic_cycles inflight (s\<lparr>state := ''disconnecting'', stopMonitoring := True\<rparr>) = (r, sc, esc)"
    by (cases "traffic_cycles inflight (s\<lparr>state := ''disconnecting'', stopMonitoring := True\<rparr>)")
  have nil: "traffic_cycles [] (s\<lparr>state := ''disconnecting'', stopMonitoring := True\<rparr>)
      = (Inr (), s\<lparr>state := ''disconnecting'', stopMonitoring := True\<rparr>, [])"
    by simp
  have empty: "fst (Stop [] waited s) = Inr True"
    by (simp add: Stop_running [OF True nil] Let_def)
  have r: "r = Inr () \<or> (\<exists>e. r = Inl e)"
    by (cases r) auto
  show ?thesis
    using True cyc r empty
    by (auto simp: Stop_running [OF True cyc] Let_def Stop_not_running split: option.splits)
qed

theorem Stop_idempotent_total_witness:
  "isRunning connected_example
   \<and> processHandle connected_example = Some 11
   \<and> fst (traffic_cycles [(traffic_json ''1000'' ''2000'', 5000)]
        (connected_example\<lparr>state := ''disconnecting'', stopMonitoring := True\<rparr>)) = Inr ()
   \<and> fst (Stop [(traffic_json ''1000'' ''2000'', 5000)] 258 connected_example) = Inr True
   \<and> processHandle (fst (snd (Stop [(traffic_json ''1000'' ''2000'', 5000)] 258 connected_example))) = None
   \<and> CloseHandle 11 \<in> set (snd (snd (Stop [(traffic_json ''1000'' ''2000'', 5000)] 258 connected_example)))
   \<and> Stop [] 0 (fst (snd (Stop [(traffic_json ''1000'' ''2000'', 5000)] 258 connected_example)))
        = (Inr True, fst (snd (Stop [(traffic_json ''1000'' ''2000'', 5000)] 258 connected_example)), [])"
proof -
  have h1: "isRunning connected_example" "processHandle connected_example = Some 11"
    by (simp_all add: connected_example_eq)
  have h2: "fst (traffic_cycles [(traffic_json ''1000'' ''2000'', 5000)]
        (connected_example\<lparr>state := ''disconnecting'', stopMonitoring := True\<rparr>)) = Inr ()"
    by code_simp
  from Stop_idempotent_total [of connected_example "[(traffic_json ''1000'' ''2000'', 5000)]" 258 "[]" 0]
    h1 h2
  show ?thesis by simp
qed

lemma Stop_step:
  assumes run: "isRunning s" and st: "Stop inflight waited s = (r, s', es)"
  shows "stateCallback s' = stateCallback s
     \<and> dispatched es = (if stateCallback s then assigned es else [])
     \<and> (r = Inr True \<and> assigned es = [''disconnecting'', ''disconnected'']
            \<and> \<not> isRunning s' \<and> state s' = ''disconnected''
          \<or> (\<exists>e. r = Inl e) \<and> assigned es = [''disconnecting''] \<and> state s' = ''disconnecting'')"
proof -
  obtain rc sc esc where
    cyc: "traffic_cycles inflight (s\<lparr>state := ''disconnecting'', stopMonitoring := True\<rparr>) = (rc, sc, esc)"
    by (cases "traffic_cycles inflight (s\<lparr>state := ''disconnecting'', stopMonitoring := True\<rparr>)")
  note f = traffic_cycles_fields [OF cyc]
  have q: "assigned esc = []" "dispatched esc = []"
    using traffic_events_assigned [OF traffic_cycles_effects [OF cyc]] by simp_all
  have rc: "rc = Inr () \<or> (\<exists>e. rc = Inl e)" by (cases rc) auto
  show ?thesis
    using st run f(4,8) q rc
    by (auto simp: Stop_running [OF run cyc] Let_def notify_state_def assigned_append
        dispatched_append split: option.splits if_splits)
qed

lemma Stop_returns_stopped:
  assumes "fst (Stop inflight waited s) = Inr True"
  shows "\<not> isRunning (fst (snd (Stop inflight waited s)))"
proof (cases "isRunning s")
  case False
  then show ?thesis by (simp add: Stop_def)
next
  case True
  obtain r s' es where r: "Stop inflight waited s = (r, s', es)"
    by (cases "Stop inflight waited s")
  from Stop_step [OF True r] assms r show ?thesis by auto
qed

subsection \<open>ReloadConfig\<close>

lemma ReloadConfig_step:
  assumes "ReloadConfig path answer file s = (r, s', es)"
  shows "assigned es = [] \<and> dispatched es = [] \<and> isRunning s' = isRunning s
     \<and> state s' = state s \<and> stateCallback s' = stateCallback s \<and> \<not> list_ex observer_event es"
proof -
  obtain rp sp where p: "ParseControllerSettings file (s\<lparr>configPath := path\<rparr>) = (rp, sp)"
    by (cases "ParseControllerSettings file (s\<lparr>configPath := path\<rparr>)")
  note f = ParseControllerSettings_fields [OF p]
  show ?thesis
    using assms f(1,2,3)
    by (cases rp) (auto simp: ReloadConfig_def Let_def p split: if_splits)
qed

lemma ReloadConfig_result:
  "HttpPut answer = [] \<Longrightarrow> fst (ReloadConfig path answer cfg s) = Inr False
      \<and> fst (snd (ReloadConfig path answer cfg s)) = s"
  "HttpPut answer \<noteq> [] \<Longrightarrow> ParseControllerSettings cfg (s\<lparr>configPath := path\<rparr>) = (Inr (), s') \<Longrightarrow>
      fst (ReloadConfig path answer cfg s) = Inr True \<and> fst (snd (ReloadConfig path answer cfg s)) = s'
      \<and> configPath s' = path"
  using ParseControllerSettings_fields(8) [of cfg "s\<lparr>configPath := path\<rparr>" "Inr ()" s']
  by (simp_all add: ReloadConfig_def Let_def)

text \<open>
  Claim C9 says that \<^verbatim>\<open>ReloadConfig\<close> returns true whenever the PUT succeeds. The
  code does so when the new file is read without an exception (\<open>ReloadConfig_result\<close>).
  It does not for a file whose controller port exceeds the range of \<^verbatim>\<open>int\<close>: the PUT
  answers 204, \<^verbatim>\<open>std::stoi\<close> raises \<^verbatim>\<open>std::out_of_range\<close>, and the call ends in
  that exception with the path and the host already replaced.
\<close>

theorem ReloadConfig_raises:
  "HttpPut (Some 204) = ''success''
   \<and> ReloadConfig ''new.yaml'' (Some 204) (Some ''external-controller: 10.0.0.1:99999999999'')
        connected_example
      = (Inl OutOfRange,
         connected_example\<lparr>configPath := ''new.yaml'', controllerHost := ''10.0.0.1''\<rparr>,
         [HttpPutRequest ''/configs?force=true''
            (''{'' @ [dquote] @ ''path'' @ [dquote] @ '':'' @ [dquote] @ ''new.yaml'' @ [dquote] @ ''}'')])"
  by code_simp

subsection \<open>The connection state\<close>

lemma perform_step:
  assumes c: "consistent s" and p: "perform c s = (r, s', es)"
  shows "follows_path (state s) (assigned es) \<and> state s' = last (state s # assigned es)
     \<and> (r = Inr () \<longrightarrow> consistent s') \<and> stateCallback s' = stateCallback s
     \<and> dispatched es = (if stateCallback s then assigned es else [])"
proof (cases c)
  case (CallStart path cfg created exitCode)
  obtain r0 where s0: "Start path cfg created exitCode s = (r0, s', es)"
    using p CallStart by (cases "Start path cfg created exitCode s" rule: forget.cases) auto
  show ?thesis
  proof (cases "isRunning s")
    case True
    with s0 c show ?thesis by (simp add: Start_def)
  next
    case False
    from Start_step [OF False s0] False c p CallStart s0 show ?thesis
      by (auto simp: consistent_def transition_def)
  qed
next
  case (CallStop inflight waited)
  obtain r0 where s0: "Stop inflight waited s = (r0, s', es)"
    using p CallStop by (cases "Stop inflight waited s" rule: forget.cases) auto
  show ?thesis
  proof (cases "isRunning s")
    case False
    with s0 c show ?thesis by (simp add: Stop_def)
  next
    case True
    from Stop_step [OF True s0] True c p CallStop s0 show ?thesis
      by (auto simp: consistent_def transition_def)
  qed
next
  case (CallReloadConfig path answer cfg)
  obtain r0 where s0: "ReloadConfig path answer cfg s = (r0, s', es)"
    using p CallReloadConfig by (cases "ReloadConfig path answer cfg s" rule: forget.cases) auto
  from ReloadConfig_step [OF s0] c show ?thesis by (simp add: consistent_def)
next
  case (PollerPass response now)
  with p have "poller_step response now s = (r, s', es)" by simp
  from poller_step_quiet [OF this] c show ?thesis by (simp add: consistent_def)
qed

lemma run_path:
  "consistent s \<Longrightarrow> run cs s = (r, s', es) \<Longrightarrow>
   follows_path (state s) (assigned es) \<and> state s' = last (state s # assigned es)
     \<and> dispatched es = (if stateCallback s then assigned es else [])"
proof (induction cs arbitrary: s r s' es)
  case Nil
  then show ?case by simp
next
  case (Cons c cs)
  obtain r1 s1 es1 where p: "perform c s = (r1, s1, es1)" by (cases "perform c s")
  note st = perform_step [OF Cons.prems(1) p]
  show ?case
  proof (cases r1)
    case (Inl e)
    with Cons.prems(2) p st show ?thesis by simp
  next
    case (Inr u)
    obtain r2 s2 es2 where q: "run cs s1 = (r2, s2, es2)" by (cases "run cs s1")
    from st Inr have c1: "consistent s1" by simp
    from Cons.prems(2) p Inr q have e: "es = es1 @ es2" "s' = s2" by simp_all
    from Cons.IH [OF c1 q] st e show ?thesis
      by (auto simp: assigned_append dispatched_append follows_path_append)
  qed
qed

lemma idle_consistent: "\<not> isRunning s \<Longrightarrow> state s = ''disconnected'' \<Longrightarrow> consistent s"
  by (simp add: consistent_def)

text \<open>
  Claim C2. From an object that is not running and whose state is \<open>disconnected\<close>,
  whatever calls of \<^verbatim>\<open>Start\<close>, \<^verbatim>\<open>Stop\<close> and \<^verbatim>\<open>ReloadConfig\<close> and passes of
  the poller follow, the values assigned to the state only ever step from
  \<open>disconnected\<close> to \<open>connected\<close>, from \<open>connected\<close> to \<open>disconnecting\<close> and from
  \<open>disconnecting\<close> to \<open>disconnected\<close>, and each assignment is handed to the state
  observer when one is registered. A successful \<^verbatim>\<open>Start\<close> of a stopped object assigns
  \<open>connected\<close>; a \<^verbatim>\<open>Stop\<close> of a running object assigns \<open>disconnecting\<close> and then
  \<open>disconnected\<close>.
\<close>

theorem connection_state_path:
  "(\<not> isRunning s \<and> state s = ''disconnected'' \<longrightarrow>
      follows_path ''disconnected'' (assigned (snd (snd (run cs s))))
      \<and> state (fst (snd (run cs s))) = last (''disconnected'' # assigned (snd (snd (run cs s))))
      \<and> dispatched (snd (snd (run cs s)))
          = (if stateCallback s then assigned (snd (snd (run cs s))) else []))
   \<and> (\<not> isRunning s \<and> fst (Start path cfg created exitCode s) = Inr True \<longrightarrow>
        state (fst (snd (Start path cfg created exitCode s))) = ''connected''
        \<and> assigned (snd (snd (Start path cfg created exitCode s))) = [''connected'']
        \<and> dispatched (snd (snd (Start path cfg created exitCode s)))
            = (if stateCallback s then [''connected''] else []))
   \<and> (isRunning s \<and> fst (Stop inflight waited s) = Inr True \<longrightarrow>
        state (fst (snd (Stop inflight waited s))) = ''disconnected''
        \<and> assigned (snd (snd (Stop inflight waited s))) = [''disconnecting'', ''disconnected'']
        \<and> dispatched (snd (snd (Stop inflight waited s)))
            = (if stateCallback s then [''disconnecting'', ''disconnected''] else []))"
proof (intro conjI impI)
  assume a: "\<not> isRunning s \<and> state s = ''disconnected''"
  obtain r s' es where r: "run cs s = (r, s', es)" by (cases "run cs s")
  from a have c: "consistent s" by (simp add: idle_consistent)
  from run_path [OF c r] a r
  show "follows_path ''disconnected'' (assigned (snd (snd (run cs s))))"
    and "state (fst (snd (run cs s))) = last (''disconnected'' # assigned (snd (snd (run cs s))))"
    and "dispatched (snd (snd (run cs s)))
          = (if stateCallback s then assigned (snd (snd (run cs s))) else [])"
    by simp_all
next
  assume a: "\<not> isRunning s \<and> fst (Start path cfg created exitCode s) = Inr True"
  obtain r s' es where r: "Start path cfg created exitCode s = (r, s', es)"
    by (cases "Start path cfg created exitCode s")
  from a have nr: "\<not> isRunning s" by simp
  from Start_step [OF nr r] a r
  show "state (fst (snd (Start path cfg created exitCode s))) = ''connected''"
    and "assigned (snd (snd (Start path cfg created exitCode s))) = [''connected'']"
    and "dispatched (snd (snd (Start path cfg created exitCode s)))
            = (if stateCallback s then [''connected''] else [])"
    by auto
next
  assume a: "isRunning s \<and> fst (Stop inflight waited s) = Inr True"
  obtain r s' es where r: "Stop inflight waited s = (r, s', es)"
    by (cases "Stop inflight waited s")
  from a have nr: "isRunning s" by simp
  from Stop_step [OF nr r] a r
  show "state (fst (snd (Stop inflight waited s))) = ''disconnected''"
    and "assigned (snd (snd (Stop inflight waited s))) = [''disconnecting'', ''disconnected'']"
    and "dispatched (snd (snd (Stop inflight waited s)))
            = (if stateCallback s then [''disconnecting'', ''disconnected''] else [])"
    by auto
qed

theorem connection_state_path_witness:
  "\<not> isRunning observed_new \<and> state observed_new = ''disconnected''
   \<and> follows_path ''disconnected'' (assigned (snd (snd (run example_calls observed_new))))
   \<and> assigned (snd (snd (run example_calls observed_new)))
       = [''connected'', ''disconnecting'', ''disconnected'', ''connected'']
   \<and> dispatched (snd (snd (run example_calls observed_new)))
       = [''connected'', ''disconnecting'', ''disconnected'', ''connected'']
   \<and> state (fst (snd (run example_calls observed_new))) = ''connected''
   \<and> fst (Start ''config.yaml'' (Some example_config) (Some (11, 12, 13)) (Some STILL_ACTIVE)
         observed_new) = Inr True
   \<and> state (fst (snd (Start ''config.yaml'' (Some example_config) (Some (11, 12, 13))
         (Some STILL_ACTIVE) observed_new))) = ''connected''
   \<and> isRunning connected_example
   \<and> fst (Stop [] 258 connected_example) = Inr True
   \<and> state (fst (snd (Stop [] 258 connected_example))) = ''disconnected''
   \<and> dispatched (snd (snd (Stop [] 258 connected_example))) = [''disconnecting'', ''disconnected'']"
proof -
  have h1: "\<not> isRunning observed_new" "state observed_new = ''disconnected''"
    "stateCallback observed_new"
    by (simp_all add: observed_new_def MihomoCore_new_def)
  have h2: "assigned (snd (snd (run example_calls observed_new)))
       = [''connected'', ''disconnecting'', ''disconnected'', ''connected'']"
    by (simp add: example_calls_effects)
  have h3: "fst (Start ''config.yaml'' (Some example_config) (Some (11, 12, 13)) (Some STILL_ACTIVE)
         observed_new) = Inr True"
    by code_simp
  have h4: "isRunning connected_example" "stateCallback connected_example"
    by (simp_all add: connected_example_eq MihomoCore_new_def)
  have h5: "fst (Stop [] 258 connected_example) = Inr True"
    by code_simp
  from connection_state_path [of observed_new example_calls "''config.yaml''" "Some example_config"
      "Some (11, 12, 13)" "Some STILL_ACTIVE" "[]" 0]
    connection_state_path [of connected_example "[]" "''config.yaml''" None None None "[]" 258]
    h1 h2 h3 h4 h5
  show ?thesis by simp
qed

subsection \<open>After Stop\<close>

lemma quiet_step:
  assumes nr: "\<not> isRunning s" and ns: "\<not> is_start c" and p: "perform c s = (r, s', es)"
  shows "\<not> list_ex observer_event es \<and> \<not> isRunning s'"
proof (cases c)
  case (CallStart path cfg created exitCode)
  with ns show ?thesis by simp
next
  case (CallStop inflight waited)
  with p nr show ?thesis by (auto simp: Stop_def)
next
  case (CallReloadConfig path answer cfg)
  obtain r0 where s0: "ReloadConfig path answer cfg s = (r0, s', es)"
    using p CallReloadConfig by (cases "ReloadConfig path answer cfg s" rule: forget.cases) auto
  from ReloadConfig_step [OF s0] nr show ?thesis by simp
next
  case (PollerPass response now)
  with p nr show ?thesis
    by (cases "trafficThread s \<and> \<not> stopMonitoring s")
      (auto simp: poller_step_def traffic_cycle_quiet)
qed

lemma quiet_run:
  "\<not> isRunning s \<Longrightarrow> \<not> list_ex is_start cs \<Longrightarrow> run cs s = (r, s', es) \<Longrightarrow>
   \<not> list_ex observer_event es"
proof (induction cs arbitrary: s r s' es)
  case Nil
  then show ?case by simp
next
  case (Cons c cs)
  obtain r1 s1 es1 where p: "perform c s = (r1, s1, es1)" by (cases "perform c s")
  from Cons.prems(2) have ns: "\<not> is_start c" "\<not> list_ex is_start cs" by simp_all
  note q = quiet_step [OF Cons.prems(1) ns(1) p]
  show ?case
  proof (cases r1)
    case (Inl e)
    with Cons.prems(3) p q show ?thesis by simp
  next
    case (Inr u)
    obtain r2 s2 es2 where q2: "run cs s1 = (r2, s2, es2)" by (cases "run cs s1")
    from Cons.prems(3) p Inr q2 have e: "es = es1 @ es2" by simp
    from q have "\<not> isRunning s1" by simp
    from Cons.IH [OF this ns(2) q2] q e show ?thesis by simp
  qed
qed

lemma Stop_join_order:
  assumes run: "isRunning s" and th: "trafficThread s"
    and ok: "fst (Stop inflight waited s) = Inr True"
  shows "\<exists>before after. snd (snd (Stop inflight waited s)) = before @ JoinThread TrafficThread # after
          \<and> \<not> list_ex is_traffic_event after \<and> \<not> list_ex is_teardown before"
proof -
  obtain rc sc esc where
    cyc: "traffic_cycles inflight (s\<lparr>state := ''disconnecting'', stopMonitoring := True\<rparr>) = (rc, sc, esc)"
    by (cases "traffic_cycles inflight (s\<lparr>state := ''disconnecting'', stopMonitoring := True\<rparr>)")
  have te: "list_all is_traffic_event esc" by (rule traffic_cycles_effects [OF cyc])
  have nt: "\<not> list_ex is_teardown esc"
    using te by (induction esc) (auto elim: is_traffic_event.elims)
  from ok th have rc: "rc = Inr ()"
    by (cases rc) (simp_all add: Stop_running [OF run cyc])
  define before where "before = [StateAssigned ''disconnecting'']
      @ notify_state (s\<lparr>state := ''disconnecting''\<rparr>) @ esc"
  define after where "after = (if logThread s then [JoinThread LogThread] else [])
      @ (case processHandle s of None \<Rightarrow> []
         | Some h \<Rightarrow> [TerminateProcess h, WaitForSingleObject h 3000 waited, CloseHandle h])
      @ (case processThread s of None \<Rightarrow> [] | Some t \<Rightarrow> [CloseHandle t])
      @ [StateAssigned ''disconnected'']
      @ notify_state (sc\<lparr>trafficThread := False, logThread := False, processHandle := None,
           processThread := None, processId := 0, isRunning := False, state := ''disconnected''\<rparr>)"
  have 1: "snd (snd (Stop inflight waited s)) = before @ JoinThread TrafficThread # after"
    using th rc by (simp add: Stop_running [OF run cyc] Let_def before_def after_def)
  have 2: "\<not> list_ex is_traffic_event after"
    by (simp add: after_def notify_state_def split: option.splits)
  have 3: "\<not> list_ex is_teardown before"
    using nt by (simp add: before_def notify_state_def)
  from 1 2 3 show ?thesis by blast
qed

text \<open>
  Claim C6. Once \<^verbatim>\<open>Stop\<close> has returned, no call other than \<^verbatim>\<open>Start\<close> and
  no pass of the poller calls the traffic observer or the state observer. Inside a
  \<^verbatim>\<open>Stop\<close> of a running object the poller thread is joined before the process is
  terminated, before any handle is closed and before \<open>disconnected\<close> is assigned or
  announced, and no traffic event follows the join.
\<close>

theorem no_events_after_Stop:
  "(fst (Stop inflight waited s) = Inr True \<and> \<not> list_ex is_start cs \<longrightarrow>
      \<not> list_ex observer_event (snd (snd (run cs (fst (snd (Stop inflight waited s)))))))
   \<and> (isRunning s \<and> trafficThread s \<and> fst (Stop inflight waited s) = Inr True \<longrightarrow>
       (\<exists>before after.
          snd (snd (Stop inflight waited s)) = before @ JoinThread TrafficThread # after
          \<and> \<not> list_ex is_traffic_event after \<and> \<not> list_ex is_teardown before))"
proof (intro conjI impI)
  assume a: "fst (Stop inflight waited s) = Inr True \<and> \<not> list_ex is_start cs"
  obtain r s' es where r: "run cs (fst (snd (Stop inflight waited s))) = (r, s', es)"
    by (cases "run cs (fst (snd (Stop inflight waited s)))")
  from a have "\<not> isRunning (fst (snd (Stop inflight waited s)))"
    by (simp add: Stop_returns_stopped)
  from quiet_run [OF this _ r] a r
  show "\<not> list_ex observer_event (snd (snd (run cs (fst (snd (Stop inflight waited s))))))"
    by simp
next
  assume "isRunning s \<and> trafficThread s \<and> fst (Stop inflight waited s) = Inr True"
  then show "\<exists>before after.
          snd (snd (Stop inflight waited s)) = before @ JoinThread TrafficThread # after
          \<and> \<not> list_ex is_traffic_event after \<and> \<not> list_ex is_teardown before"
    using Stop_join_order by blast
qed

theorem no_events_after_Stop_witness:
  "fst (Stop [(traffic_json ''1000'' ''2000'', 5000)] 0 connected_example) = Inr True
   \<and> \<not> list_ex is_start
        [PollerPass (traffic_json ''1500'' ''2400'') 6000, CallStop [] 0,
         CallReloadConfig ''other.yaml'' (Some 204) (Some example_config),
         PollerPass (traffic_json ''1700'' ''2900'') 7000]
   \<and> \<not> list_ex observer_event (snd (snd (run
        [PollerPass (traffic_json ''1500'' ''2400'') 6000, CallStop [] 0,
         CallReloadConfig ''other.yaml'' (Some 204) (Some example_config),
         PollerPass (traffic_json ''1700'' ''2900'') 7000]
        (fst (snd (Stop [(traffic_json ''1000'' ''2000'', 5000)] 0 connected_example))))))
   \<and> isRunning connected_example \<and> trafficThread connected_example
   \<and> (\<exists>before after.
          snd (snd (Stop [(traffic_json ''1000'' ''2000'', 5000)] 0 connected_example))
            = before @ JoinThread TrafficThread # after
          \<and> \<not> list_ex is_traffic_event after \<and> \<not> list_ex is_teardown before)"
proof -
  have h1: "fst (Stop [(traffic_json ''1000'' ''2000'', 5000)] 0 connected_example) = Inr True"
    by code_simp
  have h2: "isRunning connected_example" "trafficThread connected_example"
    by (simp_all add: connected_example_eq MihomoCore_new_def)
  from no_events_after_Stop [of "[(traffic_json ''1000'' ''2000'', 5000)]" 0 connected_example
      "[PollerPass (traffic_json ''1500'' ''2400'') 6000, CallStop [] 0,
         CallReloadConfig ''other.yaml'' (Some 204) (Some example_config),
         PollerPass (traffic_json ''1700'' ''2900'') 7000]"] h1 h2
  show ?thesis by simp
qed

subsection \<open>The previous sample across sessions\<close>

text \<open>
  Claim C10, amended. \<^verbatim>\<open>Stop\<close> of a running object leaves every field as the last
  pass of the poller left it, the stored previous upload, download and time among them
  (a positive time stays positive), except the fields of its teardown: the state, the two
  handles, the process id and the running flag, and also the stop flag, which stays set,
  and the thread members, which are joined. \<^verbatim>\<open>Start\<close> does not change the stored
  previous sample either.
\<close>

theorem Stop_keeps_baseline:
  "(isRunning s \<and> fst (Stop inflight waited s) = Inr True \<longrightarrow>
      fst (snd (Stop inflight waited s)) =
        (if trafficThread s then fst (snd (traffic_cycles inflight s)) else s)
          \<lparr>state := ''disconnected'', stopMonitoring := True, trafficThread := False,
           logThread := False, processHandle := None, processThread := None, processId := 0,
           isRunning := False\<rparr>)
   \<and> fst (snd (traffic_cycles inflight s)) =
        s\<lparr>lastUpload := lastUpload (fst (snd (traffic_cycles inflight s))),
          lastDownload := lastDownload (fst (snd (traffic_cycles inflight s))),
          lastTime := lastTime (fst (snd (traffic_cycles inflight s)))\<rparr>
   \<and> (isRunning s \<and> 0 < lastTime s \<longrightarrow> 0 < lastTime (fst (snd (Stop [] waited s))))
   \<and> lastUpload (fst (snd (Start path cfg created exitCode s))) = lastUpload s
   \<and> lastDownload (fst (snd (Start path cfg created exitCode s))) = lastDownload s
   \<and> lastTime (fst (snd (Start path cfg created exitCode s))) = lastTime s"
proof (intro conjI impI)
  assume a: "isRunning s \<and> fst (Stop inflight waited s) = Inr True"
  then have run: "isRunning s" by simp
  obtain rc sc esc where
    cyc: "traffic_cycles inflight (s\<lparr>state := ''disconnecting'', stopMonitoring := True\<rparr>) = (rc, sc, esc)"
    by (cases "traffic_cycles inflight (s\<lparr>state := ''disconnecting'', stopMonitoring := True\<rparr>)")
  note sc = traffic_cycles_disconnecting [OF cyc]
  from a have rc: "trafficThread s \<Longrightarrow> rc = Inr ()"
    by (cases rc) (simp_all add: Stop_running [OF run cyc])
  show "fst (snd (Stop inflight waited s)) =
        (if trafficThread s then fst (snd (traffic_cycles inflight s)) else s)
          \<lparr>state := ''disconnected'', stopMonitoring := True, trafficThread := False,
           logThread := False, processHandle := None, processThread := None, processId := 0,
           isRunning := False\<rparr>"
  proof (cases "trafficThread s")
    case True
    with rc have "rc = Inr ()" by simp
    with True show ?thesis by (simp add: Stop_running [OF run cyc] Let_def sc)
  next
    case False
    then show ?thesis by (simp add: Stop_running [OF run cyc] Let_def)
  qed
next
  obtain r s' es where c: "traffic_cycles inflight s = (r, s', es)"
    by (cases "traffic_cycles inflight s")
  from traffic_cycles_frame [OF c] c
  show "fst (snd (traffic_cycles inflight s)) =
        s\<lparr>lastUpload := lastUpload (fst (snd (traffic_cycles inflight s))),
          lastDownload := lastDownload (fst (snd (traffic_cycles inflight s))),
          lastTime := lastTime (fst (snd (traffic_cycles inflight s)))\<rparr>"
    by simp
next
  assume a: "isRunning s \<and> 0 < lastTime s"
  then have run: "isRunning s" by simp
  have nil: "traffic_cycles [] (s\<lparr>state := ''disconnecting'', stopMonitoring := True\<rparr>)
      = (Inr (), s\<lparr>state := ''disconnecting'', stopMonitoring := True\<rparr>, [])"
    by simp
  from a show "0 < lastTime (fst (snd (Stop [] waited s)))"
    by (simp add: Stop_running [OF run nil] Let_def)
next
  obtain r s' es where r: "Start path cfg created exitCode s = (r, s', es)"
    by (cases "Start path cfg created exitCode s")
  have "lastUpload s' = lastUpload s \<and> lastDownload s' = lastDownload s \<and> lastTime s' = lastTime s"
  proof (cases "isRunning s")
    case True
    with r show ?thesis by (simp add: Start_def)
  next
    case False
    from Start_step [OF False r] show ?thesis by simp
  qed
  with r show "lastUpload (fst (snd (Start path cfg created exitCode s))) = lastUpload s"
    and "lastDownload (fst (snd (Start path cfg created exitCode s))) = lastDownload s"
    and "lastTime (fst (snd (Start path cfg created exitCode s))) = lastTime s"
    by simp_all
qed

theorem Stop_keeps_baseline_witness:
  "isRunning polled_example \<and> 0 < lastTime polled_example
   \<and> fst (Stop [] 0 polled_example) = Inr True
   \<and> fst (snd (Stop [] 0 polled_example)) =
        polled_example\<lparr>state := ''disconnected'', stopMonitoring := True, trafficThread := False,
           logThread := False, processHandle := None, processThread := None, processId := 0,
           isRunning := False\<rparr>
   \<and> lastUpload (fst (snd (Stop [] 0 polled_example))) = 1500
   \<and> lastDownload (fst (snd (Stop [] 0 polled_example))) = 2400
   \<and> lastTime (fst (snd (Stop [] 0 polled_example))) = 6000
   \<and> 0 < lastTime (fst (snd (Stop [] 0 polled_example)))
   \<and> lastTime (fst (snd (Start ''config.yaml'' (Some example_config) (Some (21, 22, 23))
        (Some STILL_ACTIVE) (fst (snd (Stop [] 0 polled_example)))))) = 6000"
proof -
  have h1: "isRunning polled_example" "0 < lastTime polled_example" "trafficThread polled_example"
    by (simp_all add: polled_example_eq connected_example_eq MihomoCore_new_def)
  have h2: "fst (Stop [] 0 polled_example) = Inr True"
    by code_simp
  from Stop_keeps_baseline [of polled_example "[]" 0 "''config.yaml''" "Some example_config"
      "Some (21, 22, 23)" "Some STILL_ACTIVE"]
    Stop_keeps_baseline [of "fst (snd (Stop [] 0 polled_example))" "[]" 0 "''config.yaml''"
      "Some example_config" "Some (21, 22, 23)" "Some STILL_ACTIVE"]
    h1 h2
  show ?thesis by (simp add: polled_example_eq)
qed

text \<open>
  The claim lists the handles, the id, the running flag and the state as the only fields
  besides the previous sample that tell the object after \<^verbatim>\<open>Stop\<close> apart. The stop
  flag does so as well: no choice of the listed fields makes the object before
  \<^verbatim>\<open>Stop\<close>, or the new object, equal to the object after it.
\<close>

theorem Stop_changes_stop_flag_counterexample:
  "\<not> (\<exists>h t i r st u d tm.
        fst (snd (Stop [] 0 connected_example)) =
          connected_example\<lparr>processHandle := h, processThread := t, processId := i,
            isRunning := r, state := st, lastUpload := u, lastDownload := d, lastTime := tm\<rparr>)
   \<and> \<not> (\<exists>h t i r st u d tm.
        fst (snd (Stop [] 0 connected_example)) =
          observed_new\<lparr>processHandle := h, processThread := t, processId := i,
            isRunning := r, state := st, lastUpload := u, lastDownload := d, lastTime := tm\<rparr>)"
proof -
  have post: "stopMonitoring (fst (snd (Stop [] 0 connected_example))) = True"
    by code_simp
  have pre: "stopMonitoring connected_example = False" "stopMonitoring observed_new = False"
    by (simp_all add: connected_example_eq observed_new_def MihomoCore_new_def)
  have "\<And>h t i r st u d tm. fst (snd (Stop [] 0 connected_example)) \<noteq>
          connected_example\<lparr>processHandle := h, processThread := t, processId := i,
            isRunning := r, state := st, lastUpload := u, lastDownload := d, lastTime := tm\<rparr>"
  proof
    fix h t i r st u d tm
    assume "fst (snd (Stop [] 0 connected_example)) =
          connected_example\<lparr>processHandle := h, processThread := t, processId := i,
            isRunning := r, state := st, lastUpload := u, lastDownload := d, lastTime := tm\<rparr>"
    then have "stopMonitoring (fst (snd (Stop [] 0 connected_example))) = stopMonitoring connected_example"
      by simp
    with post pre show False by simp
  qed
  moreover have "\<And>h t i r st u d tm. fst (snd (Stop [] 0 connected_example)) \<noteq>
          observed_new\<lparr>processHandle := h, processThread := t, processId := i,
            isRunning := r, state := st, lastUpload := u, lastDownload := d, lastTime := tm\<rparr>"
  proof
    fix h t i r st u d tm
    assume "fst (snd (Stop [] 0 connected_example)) =
          observed_new\<lparr>processHandle := h, processThread := t, processId := i,
            isRunning := r, state := st, lastUpload := u, lastDownload := d, lastTime := tm\<rparr>"
    then have "stopMonitoring (fst (snd (Stop [] 0 connected_example))) = stopMonitoring observed_new"
      by simp
    with post pre show False by simp
  qed
  ultimately show ?thesis by blast
qed

text \<open>
  Claim C3 says that the first pass of the poller after every successful \<^verbatim>\<open>Start\<close>
  calls no traffic observer. That holds while the stored time is zero
  (\<open>first_cycle_without_baseline\<close>), as it is in a new object. After a session with two
  passes, a \<^verbatim>\<open>Stop\<close> and a second \<^verbatim>\<open>Start\<close>, the object still holds the
  sample of the first session, and the first pass of the second session reports rates
  computed against it.
\<close>

theorem first_cycle_after_restart_emits:
  "run [CallStart ''config.yaml'' (Some example_config) (Some (11, 12, 13)) (Some STILL_ACTIVE),
        PollerPass (traffic_json ''1000'' ''2000'') 5000,
        PollerPass (traffic_json ''1500'' ''2400'') 6000,
        CallStop [] 0,
        CallStart ''config.yaml'' (Some example_config) (Some (21, 22, 23)) (Some STILL_ACTIVE)]
       observed_new
     = (Inr (), polled_example\<lparr>processHandle := Some 21, processThread := Some 22, processId := 23\<rparr>,
        snd (snd (run [CallStart ''config.yaml'' (Some example_config) (Some (11, 12, 13)) (Some STILL_ACTIVE),
        PollerPass (traffic_json ''1000'' ''2000'') 5000,
        PollerPass (traffic_json ''1500'' ''2400'') 6000,
        CallStop [] 0,
        CallStart ''config.yaml'' (Some example_config) (Some (21, 22, 23)) (Some STILL_ACTIVE)]
       observed_new)))
   \<and> poller_step (traffic_json ''10'' ''20'') 60000
        (polled_example\<lparr>processHandle := Some 21, processThread := Some 22, processId := 23\<rparr>)
     = (Inr (),
        polled_example\<lparr>processHandle := Some 21, processThread := Some 22, processId := 23,
          lastUpload := 10, lastDownload := 20, lastTime := 60000\<rparr>,
        [TrafficEvent \<lparr>upload = 10, download = 20, uploadSpeed = - 27, downloadSpeed = - 44\<rparr>])"
  by code_simp

subsection \<open>Rounding to double precision\<close>

text \<open>
  The significand that \<open>nearest_double\<close> returns for a positive fraction lies between
  \<open>2 ^ 52\<close> and \<open>2 ^ 53\<close>, and every conversion and division is within the
  relative error \<open>1 / 2 ^ 53\<close> of the exact result.
\<close>

lemma bitlen_pos: "0 < n \<Longrightarrow> 0 < bitlen n"
  by (subst bitlen.simps) simp

lemma bitlen_bounds:
  "0 < n \<Longrightarrow> 2 ^ (bitlen n - 1) \<le> n \<and> n < 2 ^ bitlen n"
proof (induction n rule: bitlen.induct)
  case (1 n)
  show ?case
  proof (cases "n = 1")
    case True
    have "bitlen 1 = 1" by code_simp
    with True show ?thesis by simp
  next
    case False
    with "1.prems" have h: "0 < n div 2" "\<not> n \<le> 0" by auto
    from "1.IH" [OF h(2) h(1)] have ih: "2 ^ (bitlen (n div 2) - 1) \<le> n div 2"
      "n div 2 < 2 ^ bitlen (n div 2)" by simp_all
    have b: "bitlen n = Suc (bitlen (n div 2))"
      using h(2) by (subst bitlen.simps) simp
    have p: "0 < bitlen (n div 2)" using h(1) by (rule bitlen_pos)
    then obtain k where k: "bitlen (n div 2) = Suc k" by (cases "bitlen (n div 2)") auto
    from ih k have "2 ^ k \<le> n div 2" "n div 2 < 2 * 2 ^ k" by simp_all
    then have "2 * 2 ^ k \<le> n" "n < 2 * (2 * 2 ^ k)" by linarith+
    then show ?thesis by (simp add: b k)
  qed
qed

lemma round_half_even_error_int:
  assumes "0 < q"
  shows "\<bar>2 * (round_half_even p q * q - p)\<bar> \<le> q"
proof -
  define d where "d = p div q"
  define r where "r = p mod q"
  have p: "d * q + r = p" by (simp add: d_def r_def)
  have r: "0 \<le> r" "r < q" using assms by (simp_all add: r_def)
  have e: "round_half_even p q = (if 2 * r < q then d else if q < 2 * r then d + 1
      else if even d then d else d + 1)"
    by (simp add: round_half_even_def Let_def d_def r_def)
  have lo: "2 * (d * q - p) = - (2 * r)"
    using p by (simp add: algebra_simps)
  have hi: "2 * ((d + 1) * q - p) = 2 * q - 2 * r"
    using p by (simp add: algebra_simps)
  consider "2 * r < q" | "q < 2 * r" | "q = 2 * r" by linarith
  then show ?thesis
  proof cases
    case 1
    then have "round_half_even p q = d" by (simp add: e)
    with lo 1 r show ?thesis by simp
  next
    case 2
    then have "round_half_even p q = d + 1" by (simp add: e)
    with hi 2 r show ?thesis by simp
  next
    case 3
    then have n: "\<not> 2 * r < q" "\<not> q < 2 * r" by simp_all
    have "round_half_even p q = (if even d then d else d + 1)"
      by (simp only: e n if_False)
    then have "round_half_even p q = d \<or> round_half_even p q = d + 1"
      by (simp split: if_splits)
    then show ?thesis
    proof
      assume "round_half_even p q = d"
      with lo 3 r show ?thesis by simp
    next
      assume "round_half_even p q = d + 1"
      with hi 3 r show ?thesis by simp
    qed
  qed
qed

lemma round_half_even_error:
  assumes "0 < q"
  shows "\<bar>real_of_int (round_half_even p q) - real_of_int p / real_of_int q\<bar> \<le> 1 / 2"
proof -
  define m where "m = round_half_even p q"
  define X where "X = real_of_int m * real_of_int q - real_of_int p"
  have "real_of_int \<bar>2 * (m * q - p)\<bar> \<le> real_of_int q"
    unfolding m_def using round_half_even_error_int [OF assms, of p] by linarith
  moreover have "real_of_int \<bar>2 * (m * q - p)\<bar> = \<bar>2 * X\<bar>"
    by (simp add: X_def)
  moreover have "\<bar>2 * X\<bar> = 2 * \<bar>X\<bar>"
    by (simp add: abs_mult)
  ultimately have a: "\<bar>X\<bar> \<le> real_of_int q / 2" by linarith
  have q: "0 < real_of_int q" using assms by simp
  have "real_of_int m - real_of_int p / real_of_int q = X / real_of_int q"
    using q by (simp add: X_def field_simps)
  then have "\<bar>real_of_int m - real_of_int p / real_of_int q\<bar> = \<bar>X\<bar> / real_of_int q"
    using q by (simp add: abs_divide)
  also have "\<dots> \<le> (real_of_int q / 2) / real_of_int q"
    using a q by (simp add: divide_right_mono)
  also have "\<dots> = 1 / 2" using q by simp
  finally show ?thesis by (simp add: m_def)
qed

lemma scale2_value:
  assumes "0 < q" and "scale2 p q e = (p', q')"
  shows "0 < q'" and "real_of_int p' / real_of_int q' = (real_of_int p / real_of_int q) / 2 powi e"
    and "0 \<le> p \<Longrightarrow> 0 \<le> p'"
proof -
  show "0 < q'" using assms by (auto simp: scale2_def split: if_splits)
  show "0 \<le> p \<Longrightarrow> 0 \<le> p'" using assms by (auto simp: scale2_def split: if_splits)
  show "real_of_int p' / real_of_int q' = (real_of_int p / real_of_int q) / 2 powi e"
  proof (cases "0 \<le> e")
    case True
    with assms have "p' = p" "q' = q * 2 ^ nat e" by (simp_all add: scale2_def)
    with True show ?thesis by (simp add: power_int_def)
  next
    case False
    with assms have "p' = p * 2 ^ nat (- e)" "q' = q" by (simp_all add: scale2_def)
    with False show ?thesis by (simp add: power_int_def field_simps)
  qed
qed

lemma nearest_double_zero:
  assumes "0 < q"
  shows "fst (nearest_double 0 q) = 0"
proof -
  have z: "\<And>e. scale2 0 q e = (0, snd (scale2 0 q e))" by (simp add: scale2_def)
  have r: "\<And>q'. 0 < q' \<Longrightarrow> round_half_even 0 q' = 0" by (simp add: round_half_even_def)
  have s: "\<And>e. 0 < snd (scale2 0 q e)" using assms by (simp add: scale2_def)
  show ?thesis
    by (simp add: nearest_double_def Let_def split_beta r s scale2_def assms)
qed

lemma nearest_double_pos:
  assumes p: "0 < p" and q: "0 < q"
  shows "\<bar>double_val (nearest_double p q) - real_of_int p / real_of_int q\<bar>
           \<le> (real_of_int p / real_of_int q) / 2 ^ 53"
    and "0 < fst (nearest_double p q)"
proof -
  define x where "x = real_of_int p / real_of_int q"
  define k where "k = int (bitlen p) - int (bitlen q)"
  define e0 where "e0 = k - 53"
  define p0 where "p0 = fst (scale2 p q e0)"
  define q0 where "q0 = snd (scale2 p q e0)"
  define e where "e = (if 2 ^ 53 * q0 \<le> p0 then e0 + 1 else e0)"
  define p1 where "p1 = fst (scale2 p q e)"
  define q1 where "q1 = snd (scale2 p q e)"
  define m where "m = round_half_even p1 q1"
  have nd: "nearest_double p q = (m, e)"
    by (simp add: nearest_double_def Let_def split_beta m_def p1_def q1_def e_def p0_def q0_def
        e0_def k_def)
  have xpos: "0 < x" using p q by (simp add: x_def)
  have s0: "scale2 p q e0 = (p0, q0)" by (simp add: p0_def q0_def)
  have s1: "scale2 p q e = (p1, q1)" by (simp add: p1_def q1_def)
  note v0 = scale2_value [OF q s0]
  note v1 = scale2_value [OF q s1]
  have bp: "2 ^ (bitlen p - 1) \<le> p" and bq: "q < 2 ^ bitlen q"
    using bitlen_bounds [OF p] bitlen_bounds [OF q] by simp_all
  have bpp: "0 < bitlen p" using p by (rule bitlen_pos)
  have "real_of_int (2 ^ (bitlen p - 1)) \<le> real_of_int p" using bp by linarith
  then have rp: "2 powi (int (bitlen p) - 1) \<le> real_of_int p"
    using bpp by (simp add: power_int_def nat_diff_distrib')
  have "real_of_int q < real_of_int (2 ^ bitlen q)" using bq by linarith
  then have rq: "real_of_int q < 2 powi (int (bitlen q))"
    by (simp add: power_int_def)
  have "2 powi (k - 1) = 2 powi (int (bitlen p) - 1) / (2 powi (int (bitlen q)) :: real)"
    by (simp add: k_def power_int_diff)
  also have "\<dots> \<le> real_of_int p / 2 powi (int (bitlen q))"
    using rp by (simp add: divide_right_mono)
  also have "\<dots> < real_of_int p / real_of_int q"
    using rq p q by (simp add: divide_strict_left_mono)
  finally have xlow: "2 powi (k - 1) < x" by (simp add: x_def)
  have "(2::real) powi 52 = 2 powi (k - 1) / 2 powi e0"
    by (simp add: e0_def power_int_diff [symmetric])
  also have "\<dots> < x / 2 powi e0"
    using xlow by (simp add: divide_strict_right_mono)
  finally have s0low: "2 ^ 52 < x / 2 powi e0" by simp
  have q0: "0 < real_of_int q0" using v0(1) by simp
  have test: "(2 ^ 53 * q0 \<le> p0) = (2 ^ 53 \<le> x / 2 powi e0)"
  proof -
    have "(2 ^ 53 * q0 \<le> p0) = (real_of_int (2 ^ 53 * q0) \<le> real_of_int p0)" by linarith
    also have "\<dots> = (2 ^ 53 \<le> real_of_int p0 / real_of_int q0)"
      using q0 by (simp add: pos_le_divide_eq)
    finally show ?thesis by (simp add: v0(2) x_def)
  qed
  have slow: "2 ^ 52 \<le> x / 2 powi e"
  proof (cases "2 ^ 53 * q0 \<le> p0")
    case True
    then have e: "e = e0 + 1" by (simp add: e_def)
    have pw: "2 powi e = 2 powi e0 * (2::real)"
      by (simp add: e power_int_add)
    have h: "x / 2 powi e = (x / 2 powi e0) / 2"
      unfolding pw by simp
    define y where "y = x / 2 powi e0"
    from True test have "2 ^ 53 \<le> y" by (simp add: y_def)
    then have "2 ^ 52 \<le> y / 2" by simp
    then show ?thesis unfolding h y_def .
  next
    case False
    then have "e = e0" by (simp add: e_def)
    with s0low show ?thesis by simp
  qed
  have err: "\<bar>real_of_int m - x / 2 powi e\<bar> \<le> 1 / 2"
    using round_half_even_error [OF v1(1), of p1] by (simp add: m_def v1(2) x_def)
  have pe: "0 < (2::real) powi e" by simp
  have "double_val (m, e) - x = (real_of_int m - x / 2 powi e) * 2 powi e"
    by (simp add: double_val_def field_simps)
  then have "\<bar>double_val (m, e) - x\<bar> = \<bar>real_of_int m - x / 2 powi e\<bar> * 2 powi e"
    by (simp add: abs_mult)
  also have "\<dots> \<le> (1 / 2) * 2 powi e"
    using err pe by (simp add: mult_right_mono)
  also have "\<dots> \<le> (1 / 2) * (x / 2 ^ 52)"
  proof -
    from slow pe have "2 ^ 52 * 2 powi e \<le> x" by (simp add: pos_le_divide_eq)
    then have "2 powi e \<le> x / 2 ^ 52" by (simp add: pos_le_divide_eq mult.commute)
    then show ?thesis by simp
  qed
  also have "\<dots> = x / 2 ^ 53" by simp
  finally show "\<bar>double_val (nearest_double p q) - real_of_int p / real_of_int q\<bar>
           \<le> (real_of_int p / real_of_int q) / 2 ^ 53"
    by (simp add: nd x_def)
  from err slow have "2 ^ 52 - 1 / 2 \<le> real_of_int m" by linarith
  then have "0 < real_of_int m" by simp
  then show "0 < fst (nearest_double p q)" by (simp add: nd)
qed

lemma nearest_double_error:
  assumes p: "0 \<le> p" and q: "0 < q"
  shows "\<bar>double_val (nearest_double p q) - real_of_int p / real_of_int q\<bar>
           \<le> (real_of_int p / real_of_int q) / 2 ^ 53"
    and "0 \<le> fst (nearest_double p q)"
    and "(0 < fst (nearest_double p q)) = (0 < p)"
proof -
  have z: "p = 0 \<Longrightarrow> fst (nearest_double p q) = 0" using nearest_double_zero [OF q] by simp
  show "\<bar>double_val (nearest_double p q) - real_of_int p / real_of_int q\<bar>
           \<le> (real_of_int p / real_of_int q) / 2 ^ 53"
  proof (cases "p = 0")
    case True
    with z show ?thesis by (simp add: double_val_def)
  next
    case False
    with p have "0 < p" by simp
    from nearest_double_pos(1) [OF this q] show ?thesis .
  qed
  show "0 \<le> fst (nearest_double p q)"
    using z nearest_double_pos(2) [OF _ q, of p] p by (cases "p = 0") auto
  show "(0 < fst (nearest_double p q)) = (0 < p)"
    using z nearest_double_pos(2) [OF _ q, of p] p by (cases "p = 0") auto
qed

lemma nearest_double_significand:
  assumes p: "0 < p" and q: "0 < q"
  shows "2 ^ 52 \<le> fst (nearest_double p q)" and "fst (nearest_double p q) \<le> 2 ^ 53"
proof -
  define x where "x = real_of_int p / real_of_int q"
  define k where "k = int (bitlen p) - int (bitlen q)"
  define e0 where "e0 = k - 53"
  define p0 where "p0 = fst (scale2 p q e0)"
  define q0 where "q0 = snd (scale2 p q e0)"
  define e where "e = (if 2 ^ 53 * q0 \<le> p0 then e0 + 1 else e0)"
  define p1 where "p1 = fst (scale2 p q e)"
  define q1 where "q1 = snd (scale2 p q e)"
  define m where "m = round_half_even p1 q1"
  have nd: "nearest_double p q = (m, e)"
    by (simp add: nearest_double_def Let_def split_beta m_def p1_def q1_def e_def p0_def q0_def
        e0_def k_def)
  have s0: "scale2 p q e0 = (p0, q0)" by (simp add: p0_def q0_def)
  have s1: "scale2 p q e = (p1, q1)" by (simp add: p1_def q1_def)
  note v0 = scale2_value [OF q s0]
  note v1 = scale2_value [OF q s1]
  have bp: "2 ^ (bitlen p - 1) \<le> p" "p < 2 ^ bitlen p"
    and bq: "2 ^ (bitlen q - 1) \<le> q" "q < 2 ^ bitlen q"
    using bitlen_bounds [OF p] bitlen_bounds [OF q] by simp_all
  have bpp: "0 < bitlen p" "0 < bitlen q" using p q by (simp_all add: bitlen_pos)
  have "real_of_int (2 ^ (bitlen p - 1)) \<le> real_of_int p" using bp(1) by linarith
  then have rp1: "2 powi (int (bitlen p) - 1) \<le> real_of_int p"
    using bpp by (simp add: power_int_def nat_diff_distrib')
  have "real_of_int p < real_of_int (2 ^ bitlen p)" using bp(2) by linarith
  then have rp2: "real_of_int p < 2 powi (int (bitlen p))"
    by (simp add: power_int_def)
  have "real_of_int (2 ^ (bitlen q - 1)) \<le> real_of_int q" using bq(1) by linarith
  then have rq1: "2 powi (int (bitlen q) - 1) \<le> real_of_int q"
    using bpp by (simp add: power_int_def nat_diff_distrib')
  have "real_of_int q < real_of_int (2 ^ bitlen q)" using bq(2) by linarith
  then have rq2: "real_of_int q < 2 powi (int (bitlen q))"
    by (simp add: power_int_def)
  have rq: "0 < real_of_int q" "0 < real_of_int p" using p q by simp_all
  have "2 powi (k - 1) = 2 powi (int (bitlen p) - 1) / (2 powi (int (bitlen q)) :: real)"
    by (simp add: k_def power_int_diff)
  also have "\<dots> \<le> real_of_int p / 2 powi (int (bitlen q))"
    using rp1 by (simp add: divide_right_mono)
  also have "\<dots> < real_of_int p / real_of_int q"
    using rq2 rq by (simp add: divide_strict_left_mono)
  finally have xlow: "2 powi (k - 1) < x" by (simp add: x_def)
  have "x = real_of_int p / real_of_int q" by (simp add: x_def)
  also have "\<dots> < 2 powi (int (bitlen p)) / real_of_int q"
    using rp2 rq by (simp add: divide_strict_right_mono)
  also have "\<dots> \<le> 2 powi (int (bitlen p)) / 2 powi (int (bitlen q) - 1)"
    using rq1 rq by (intro divide_left_mono) auto
  also have "\<dots> = 2 powi (k + 1)"
  proof -
    have "k + 1 = int (bitlen p) - (int (bitlen q) - 1)" by (simp add: k_def)
    then have "(2::real) powi (k + 1) = 2 powi (int (bitlen p) - (int (bitlen q) - 1))"
      by (rule arg_cong)
    also have "\<dots> = 2 powi (int (bitlen p)) / 2 powi (int (bitlen q) - 1)"
      by (rule power_int_diff) simp
    finally show ?thesis by (rule sym)
  qed
  finally have xhigh: "x < 2 powi (k + 1)" .
  define y where "y = x / 2 powi e0"
  have "(2::real) powi 52 = 2 powi (k - 1) / 2 powi e0"
    by (simp add: e0_def power_int_diff [symmetric])
  also have "\<dots> < y"
    unfolding y_def using xlow by (simp add: divide_strict_right_mono)
  finally have ylow: "2 ^ 52 < y" by simp
  have "y < 2 powi (k + 1) / 2 powi e0"
    unfolding y_def using xhigh by (simp add: divide_strict_right_mono)
  also have "\<dots> = (2::real) powi 54"
    by (simp add: e0_def power_int_diff [symmetric])
  finally have yhigh: "y < 2 ^ 54" by simp
  have q0: "0 < real_of_int q0" using v0(1) by simp
  have test: "(2 ^ 53 * q0 \<le> p0) = (2 ^ 53 \<le> y)"
  proof -
    have "(2 ^ 53 * q0 \<le> p0) = (real_of_int (2 ^ 53 * q0) \<le> real_of_int p0)" by linarith
    also have "\<dots> = (2 ^ 53 \<le> real_of_int p0 / real_of_int q0)"
      using q0 by (simp add: pos_le_divide_eq)
    finally show ?thesis by (simp add: v0(2) x_def y_def)
  qed
  define z where "z = x / 2 powi e"
  have z: "2 ^ 52 \<le> z \<and> z < 2 ^ 53"
  proof (cases "2 ^ 53 * q0 \<le> p0")
    case True
    then have e: "e = e0 + 1" by (simp add: e_def)
    have pw: "2 powi e = 2 powi e0 * (2::real)"
      by (simp add: e power_int_add)
    have h: "z = y / 2"
      unfolding z_def y_def pw by simp
    from True test have "2 ^ 53 \<le> y" by simp
    with yhigh show ?thesis unfolding h by simp
  next
    case False
    then have "e = e0" by (simp add: e_def)
    then have "z = y" by (simp add: z_def y_def)
    with ylow False test show ?thesis by simp
  qed
  have err: "\<bar>real_of_int m - z\<bar> \<le> 1 / 2"
    using round_half_even_error [OF v1(1), of p1] by (simp add: m_def v1(2) x_def z_def)
  from err z have "2 ^ 52 - 1 / 2 \<le> real_of_int m" "real_of_int m < 2 ^ 53 + 1 / 2"
    by linarith+
  then have "real_of_int (2 ^ 52) - 1 < real_of_int m" "real_of_int m < real_of_int (2 ^ 53) + 1"
    by simp_all
  then have "2 ^ 52 - 1 < m" "m < 2 ^ 53 + 1"
    by linarith+
  then show "2 ^ 52 \<le> fst (nearest_double p q)" and "fst (nearest_double p q) \<le> 2 ^ 53"
    by (simp_all add: nd)
qed

lemma double_of_int_error:
  "\<bar>double_val (double_of_int n) - real_of_int n\<bar> \<le> \<bar>real_of_int n\<bar> / 2 ^ 53"
proof -
  obtain m e where nd: "nearest_double \<bar>n\<bar> 1 = (m, e)" by (cases "nearest_double \<bar>n\<bar> 1")
  have d: "double_of_int n = (sgn n * m, e)" by (simp add: double_of_int_def nd)
  have err: "\<bar>double_val (m, e) - real_of_int \<bar>n\<bar>\<bar> \<le> real_of_int \<bar>n\<bar> / 2 ^ 53"
    using nearest_double_error(1) [of "\<bar>n\<bar>" 1] by (simp add: nd)
  have n: "real_of_int n = real_of_int (sgn n) * real_of_int \<bar>n\<bar>"
    by (simp add: sgn_if)
  have "double_val (double_of_int n) - real_of_int n
      = real_of_int (sgn n) * (double_val (m, e) - real_of_int \<bar>n\<bar>)"
    by (subst n) (simp add: d double_val_def algebra_simps)
  then have "\<bar>double_val (double_of_int n) - real_of_int n\<bar>
      = \<bar>real_of_int (sgn n)\<bar> * \<bar>double_val (m, e) - real_of_int \<bar>n\<bar>\<bar>"
    by (simp add: abs_mult)
  also have "\<dots> \<le> 1 * \<bar>double_val (m, e) - real_of_int \<bar>n\<bar>\<bar>"
    by (rule mult_right_mono) (simp_all add: sgn_if)
  also have "\<dots> \<le> real_of_int \<bar>n\<bar> / 2 ^ 53" using err by simp
  finally show ?thesis by simp
qed

lemma double_of_int_pos: "(0 < fst (double_of_int n)) = (0 < n)"
proof -
  obtain m e where nd: "nearest_double \<bar>n\<bar> 1 = (m, e)" by (cases "nearest_double \<bar>n\<bar> 1")
  have d: "double_of_int n = (sgn n * m, e)" by (simp add: double_of_int_def nd)
  have m: "(0 < m) = (0 < \<bar>n\<bar>)" "0 \<le> m"
    using nearest_double_error(2,3) [of "\<bar>n\<bar>" 1] by (simp_all add: nd)
  show ?thesis using m by (auto simp: d sgn_if zero_less_mult_iff)
qed

lemma double_div_pos:
  assumes "0 < fst a" "0 < fst b"
  shows "0 < fst (double_div a b)"
proof -
  obtain m1 e1 where a: "a = (m1, e1)" by (cases a)
  obtain m2 e2 where b: "b = (m2, e2)" by (cases b)
  from assms a b have m: "0 < m1" "0 < m2" by simp_all
  define P where "P = (if e2 \<le> e1 then \<bar>m1\<bar> * 2 ^ nat (e1 - e2) else \<bar>m1\<bar>)"
  define Q where "Q = (if e2 \<le> e1 then \<bar>m2\<bar> else \<bar>m2\<bar> * 2 ^ nat (e2 - e1))"
  have PQ: "0 < P" "0 < Q" using m by (simp_all add: P_def Q_def)
  obtain m e where nd: "nearest_double P Q = (m, e)" by (cases "nearest_double P Q")
  have d: "double_div a b = (sgn m1 * sgn m2 * m, e)"
    using nd by (auto simp: double_div_def a b P_def Q_def Let_def)
  have "0 < m" using nearest_double_pos(2) [OF PQ] by (simp add: nd)
  with m show ?thesis by (simp add: d)
qed

lemma double_div_error:
  assumes nz: "fst b \<noteq> 0"
  shows "\<bar>double_val (double_div a b) - double_val a / double_val b\<bar>
           \<le> \<bar>double_val a / double_val b\<bar> / 2 ^ 53"
proof -
  obtain m1 e1 where a: "a = (m1, e1)" by (cases a)
  obtain m2 e2 where b: "b = (m2, e2)" by (cases b)
  from nz b have m2: "m2 \<noteq> 0" by simp
  define P where "P = (if e2 \<le> e1 then \<bar>m1\<bar> * 2 ^ nat (e1 - e2) else \<bar>m1\<bar>)"
  define Q where "Q = (if e2 \<le> e1 then \<bar>m2\<bar> else \<bar>m2\<bar> * 2 ^ nat (e2 - e1))"
  have PQ: "0 \<le> P" "0 < Q" using m2 by (simp_all add: P_def Q_def)
  obtain m e where nd: "nearest_double P Q = (m, e)" by (cases "nearest_double P Q")
  have d: "double_div a b = (sgn m1 * sgn m2 * m, e)"
    using nd by (auto simp: double_div_def a b P_def Q_def Let_def)
  define z where "z = real_of_int P / real_of_int Q"
  have err: "\<bar>double_val (m, e) - z\<bar> \<le> z / 2 ^ 53"
    using nearest_double_error(1) [OF PQ] by (simp add: nd z_def)
  have z: "z = \<bar>real_of_int m1\<bar> / \<bar>real_of_int m2\<bar> * 2 powi (e1 - e2)"
  proof (cases "e2 \<le> e1")
    case True
    then show ?thesis by (simp add: z_def P_def Q_def power_int_def)
  next
    case False
    then show ?thesis by (simp add: z_def P_def Q_def power_int_def field_simps)
  qed
  have q: "double_val a / double_val b
      = real_of_int m1 / real_of_int m2 * 2 powi (e1 - e2)"
    by (simp add: a b double_val_def power_int_diff)
  have s: "real_of_int m1 / real_of_int m2
      = real_of_int (sgn m1 * sgn m2) * (\<bar>real_of_int m1\<bar> / \<bar>real_of_int m2\<bar>)"
    using m2 by (auto simp: sgn_if)
  have q': "double_val a / double_val b = real_of_int (sgn m1 * sgn m2) * z"
    by (simp add: q z s)
  have az: "\<bar>double_val a / double_val b\<bar> = z"
  proof -
    have "0 \<le> z" using PQ by (simp add: z_def)
    moreover have "\<bar>real_of_int (sgn m1 * sgn m2)\<bar> * z = z"
      using m2 by (cases "m1 = 0") (auto simp: sgn_if z abs_mult)
    ultimately show ?thesis by (simp add: q' abs_mult)
  qed
  have dv: "double_val (double_div a b) = real_of_int (sgn m1 * sgn m2) * double_val (m, e)"
    by (simp add: d double_val_def)
  have "double_val (double_div a b) - double_val a / double_val b
      = real_of_int (sgn m1 * sgn m2) * (double_val (m, e) - z)"
    unfolding dv q' by (simp only: right_diff_distrib)
  then have "\<bar>double_val (double_div a b) - double_val a / double_val b\<bar>
      = \<bar>real_of_int (sgn m1 * sgn m2)\<bar> * \<bar>double_val (m, e) - z\<bar>"
    by (simp only: abs_mult)
  also have "\<dots> \<le> 1 * \<bar>double_val (m, e) - z\<bar>"
    by (rule mult_right_mono) (simp_all add: sgn_if)
  also have "\<dots> \<le> z / 2 ^ 53" using err by simp
  finally show ?thesis unfolding az .
qed

subsection \<open>Truncation\<close>

lemma trunc_real_of_int [simp]: "trunc_real (real_of_int k) = k"
  by (simp add: trunc_real_def)

lemma trunc_real_divide:
  assumes "0 < b"
  shows "trunc_real (real_of_int a / real_of_int b) = sgn a * (\<bar>a\<bar> div b)"
proof (cases "0 \<le> a")
  case True
  then have "0 \<le> real_of_int a / real_of_int b" using assms by simp
  then have "trunc_real (real_of_int a / real_of_int b) = a div b"
    by (simp add: trunc_real_def floor_divide_of_int_eq)
  moreover have "sgn a * (\<bar>a\<bar> div b) = a div b" using True by (cases "a = 0") (simp_all add: sgn_if)
  ultimately show ?thesis by simp
next
  case False
  then have neg: "real_of_int a / real_of_int b < 0" using assms by (simp add: divide_neg_pos)
  have "\<lceil>real_of_int a / real_of_int b\<rceil> = - \<lfloor>real_of_int (- a) / real_of_int b\<rfloor>"
    by (simp add: ceiling_def)
  also have "\<dots> = - ((- a) div b)"
    by (simp only: floor_divide_of_int_eq)
  finally have "trunc_real (real_of_int a / real_of_int b) = - ((- a) div b)"
    using neg by (simp add: trunc_real_def)
  with False show ?thesis by (simp add: sgn_if)
qed

lemma trunc_real_rat:
  "0 < b \<Longrightarrow> trunc_real (real_of_int a / real_of_int b) = trunc_div a b"
  by (simp add: trunc_real_divide trunc_div_def sgn_if)

lemma int64_of_double_trunc:
  "int64_of_double a =
     (let v = trunc_real (double_val a) in if - (2 ^ 63) \<le> v \<and> v < 2 ^ 63 then Some v else None)"
proof -
  obtain m e where a: "a = (m, e)" by (cases a)
  have "trunc_real (double_val (m, e))
      = (if 0 \<le> e then m * 2 ^ nat e else sgn m * (\<bar>m\<bar> div 2 ^ nat (- e)))"
  proof (cases "0 \<le> e")
    case True
    have "double_val (m, e) = real_of_int (m * 2 ^ nat e)"
      using True by (simp add: double_val_def power_int_def)
    then show ?thesis using True by (simp only: trunc_real_of_int if_True)
  next
    case False
    have "double_val (m, e) = real_of_int m / real_of_int (2 ^ nat (- e))"
      using False by (simp add: double_val_def power_int_def field_simps)
    then show ?thesis using False trunc_real_divide [of "2 ^ nat (- e)" m] by simp
  qed
  then show ?thesis by (simp add: int64_of_double_def a Let_def)
qed

text \<open>
  A real number \<open>y\<close> with \<open>b * y\<close> less than one away from the integer \<open>a\<close> has the same
  integer part as \<open>a / b\<close>, unless \<open>b\<close> divides \<open>a\<close>: then \<open>y\<close> may lie just below the
  whole number \<open>a / b\<close>.
\<close>

lemma floor_near_rat:
  fixes y :: real
  assumes b: "0 < b" and close: "\<bar>real_of_int b * y - real_of_int a\<bar> < 1"
  shows "\<lfloor>y\<rfloor> = a div b \<or> (b dvd a \<and> \<lfloor>y\<rfloor> = a div b - 1)"
proof -
  define k where "k = a div b"
  define r where "r = a mod b"
  have a_eq: "a = b * k + r" by (simp add: k_def r_def)
  have r: "0 \<le> r" "r < b" using b by (simp_all add: r_def)
  have rb: "0 < real_of_int b" using b by simp
  have lo: "real_of_int a - 1 < real_of_int b * y"
    and hi: "real_of_int b * y < real_of_int a + 1"
    using close by linarith+
  have up: "y < real_of_int (k + 1)"
  proof -
    have "a + 1 \<le> b * (k + 1)" using a_eq r by (simp add: algebra_simps)
    then have "real_of_int (a + 1) \<le> real_of_int (b * (k + 1))" by (simp only: of_int_le_iff)
    then have "real_of_int a + 1 \<le> real_of_int b * real_of_int (k + 1)" by simp
    with hi have "real_of_int b * y < real_of_int b * real_of_int (k + 1)" by linarith
    then show ?thesis using rb by (simp only: mult_less_cancel_left_pos)
  qed
  then have fu: "\<lfloor>y\<rfloor> < k + 1" by (simp only: floor_less_iff)
  show ?thesis
  proof (cases "r = 0")
    case True
    then have dv: "b dvd a" using a_eq by simp
    have "b * (k - 1) \<le> a - 1" using True a_eq b by (simp add: algebra_simps)
    then have "real_of_int (b * (k - 1)) \<le> real_of_int (a - 1)" by (simp only: of_int_le_iff)
    then have "real_of_int b * real_of_int (k - 1) \<le> real_of_int a - 1" by simp
    with lo have "real_of_int b * real_of_int (k - 1) < real_of_int b * y" by linarith
    then have "real_of_int (k - 1) < y" using rb by (simp only: mult_less_cancel_left_pos)
    then have "real_of_int (k - 1) \<le> y" by simp
    then have "k - 1 \<le> \<lfloor>y\<rfloor>" by (simp only: le_floor_iff)
    with fu have "\<lfloor>y\<rfloor> = k \<or> \<lfloor>y\<rfloor> = k - 1" by linarith
    with dv show ?thesis unfolding k_def by blast
  next
    case False
    then have "1 \<le> r" using r by simp
    then have "b * k \<le> a - 1" using a_eq by simp
    then have "real_of_int (b * k) \<le> real_of_int (a - 1)" by (simp only: of_int_le_iff)
    then have "real_of_int b * real_of_int k \<le> real_of_int a - 1" by simp
    with lo have "real_of_int b * real_of_int k < real_of_int b * y" by linarith
    then have "real_of_int k < y" using rb by (simp only: mult_less_cancel_left_pos)
    then have "real_of_int k \<le> y" by simp
    then have "k \<le> \<lfloor>y\<rfloor>" by (simp only: le_floor_iff)
    with fu have "\<lfloor>y\<rfloor> = k" by linarith
    then show ?thesis unfolding k_def by blast
  qed
qed

lemma trunc_real_near_rat:
  fixes y :: real
  assumes b: "0 < b" and close: "\<bar>real_of_int b * y - real_of_int a\<bar> < 1"
    and pos: "0 \<le> a \<Longrightarrow> 0 \<le> y" and neg: "a \<le> 0 \<Longrightarrow> y \<le> 0"
  shows "trunc_real y = trunc_div a b \<or> (b dvd a \<and> trunc_real y = trunc_div a b - sgn a)"
proof (cases "0 \<le> a")
  case True
  then have y: "0 \<le> y" by (rule pos)
  have t: "trunc_real y = \<lfloor>y\<rfloor>" using y by (simp add: trunc_real_def)
  have d: "trunc_div a b = a div b" using True b by (simp add: trunc_div_def)
  show ?thesis
  proof (cases "a = 0")
    case True
    with neg y have "y = 0" by simp
    with True show ?thesis by (simp add: trunc_real_def trunc_div_def)
  next
    case False
    with True have "sgn a = 1" by simp
    with floor_near_rat [OF b close] t d show ?thesis by simp
  qed
next
  case False
  then have a: "a < 0" by simp
  then have y0: "y \<le> 0" using neg by simp
  have "y \<noteq> 0"
  proof
    assume "y = 0"
    with close have "\<bar>real_of_int a\<bar> < 1" by simp
    then have "\<bar>a\<bar> < 1" by linarith
    with a show False by simp
  qed
  with y0 have y: "y < 0" by simp
  have t: "trunc_real y = - \<lfloor>- y\<rfloor>" using y by (simp add: trunc_real_def ceiling_def)
  have d: "trunc_div a b = - ((- a) div b)" using a b by (simp add: trunc_div_def)
  have c: "\<bar>real_of_int b * (- y) - real_of_int (- a)\<bar> < 1" using close by simp
  have s: "sgn a = - 1" using a by simp
  from floor_near_rat [OF b c] have
    "\<lfloor>- y\<rfloor> = (- a) div b \<or> (b dvd a \<and> \<lfloor>- y\<rfloor> = (- a) div b - 1)" by simp
  then show ?thesis unfolding t d s by auto
qed

subsection \<open>The error of a computed rate\<close>

lemma rel_factor:
  fixes f z :: real
  assumes "\<bar>f - z\<bar> \<le> \<bar>z\<bar> / 2 ^ 53"
  shows "\<exists>d. \<bar>d\<bar> \<le> 1 / 2 ^ 53 \<and> f = z * (1 + d)"
proof (cases "z = 0")
  case True
  with assms have "f = 0" by simp
  with True show ?thesis by (intro exI [of _ 0]) simp
next
  case False
  define d where "d = (f - z) / z"
  have "\<bar>d\<bar> = \<bar>f - z\<bar> / \<bar>z\<bar>" by (simp add: d_def abs_divide)
  also have "\<dots> \<le> (\<bar>z\<bar> / 2 ^ 53) / \<bar>z\<bar>"
    using assms by (simp add: divide_right_mono)
  also have "\<dots> = 1 / 2 ^ 53" using False by simp
  finally have "\<bar>d\<bar> \<le> 1 / 2 ^ 53" .
  moreover have "f = z * (1 + d)" using False by (simp add: d_def field_simps)
  ultimately show ?thesis by blast
qed

lemma factor_bound:
  fixes d0 d1 d2 d3 :: real
  assumes "\<bar>d0\<bar> \<le> 1 / 2 ^ 53" "\<bar>d1\<bar> \<le> 1 / 2 ^ 53" "\<bar>d2\<bar> \<le> 1 / 2 ^ 53" "\<bar>d3\<bar> \<le> 1 / 2 ^ 53"
  shows "\<bar>(1 + d0) * (1 + d3) / ((1 + d1) * (1 + d2)) - 1\<bar> \<le> 5 / 2 ^ 53"
proof -
  define eps :: real where "eps = 1 / 2 ^ 53"
  have eps: "0 < eps" "eps < 1" by (simp_all add: eps_def)
  have b: "1 - eps \<le> 1 + d0" "1 + d0 \<le> 1 + eps" "1 - eps \<le> 1 + d1" "1 + d1 \<le> 1 + eps"
    "1 - eps \<le> 1 + d2" "1 + d2 \<le> 1 + eps" "1 - eps \<le> 1 + d3" "1 + d3 \<le> 1 + eps"
    using assms unfolding eps_def by linarith+
  have lo: "0 < 1 - eps" using eps by simp
  define N where "N = (1 + d0) * (1 + d3)"
  define D where "D = (1 + d1) * (1 + d2)"
  have N: "(1 - eps) * (1 - eps) \<le> N" "N \<le> (1 + eps) * (1 + eps)"
    unfolding N_def using b lo by (auto intro!: mult_mono)
  have D: "(1 - eps) * (1 - eps) \<le> D" "D \<le> (1 + eps) * (1 + eps)"
    unfolding D_def using b lo by (auto intro!: mult_mono)
  have Dpos: "0 < D" using D(1) lo by (meson less_le_trans mult_pos_pos)
  have Npos: "0 \<le> N" using N(1) lo by (meson le_less_trans less_imp_le mult_pos_pos order_trans zero_le_mult_iff)
  have sq: "0 < (1 - eps) * (1 - eps)" using lo by simp
  have up: "N / D \<le> (1 + eps) * (1 + eps) / ((1 - eps) * (1 - eps))"
    using N(2) D(1) Npos sq by (intro frac_le) auto
  have dn: "(1 - eps) * (1 - eps) / ((1 + eps) * (1 + eps)) \<le> N / D"
    using N(1) D(2) Dpos sq by (intro frac_le) auto
  have n1: "(1 + eps) * (1 + eps) / ((1 - eps) * (1 - eps)) \<le> 1 + 5 / 2 ^ 53"
    unfolding eps_def by simp
  have n2: "1 - 5 / 2 ^ 53 \<le> (1 - eps) * (1 - eps) / ((1 + eps) * (1 + eps))"
    unfolding eps_def by simp
  from up dn n1 n2 have "\<bar>N / D - 1\<bar> \<le> 5 / 2 ^ 53" by linarith
  then show ?thesis by (simp add: N_def D_def)
qed

lemma timeDelta_pos:
  "0 < ms \<Longrightarrow> double_pos (double_div (double_of_int ms) (1000, 0))"
  unfolding double_pos_def by (rule double_div_pos) (simp_all add: double_of_int_pos)

lemma timeDelta_zero:
  "\<not> double_pos (double_div (double_of_int 0) (1000, 0))"
  by code_simp

lemma rate_value:
  assumes ms: "0 < ms"
  shows "\<bar>double_val (double_div (double_of_int delta) (double_div (double_of_int ms) (1000, 0)))
            - 1000 * real_of_int delta / real_of_int ms\<bar>
         \<le> \<bar>1000 * real_of_int delta / real_of_int ms\<bar> * (5 / 2 ^ 53)"
proof -
  define u where "u = double_of_int ms"
  define t where "t = double_div u (1000, 0)"
  define d where "d = double_of_int delta"
  define y where "y = double_div d t"
  have tpos: "0 < fst t"
    unfolding t_def u_def by (rule double_div_pos) (simp_all add: double_of_int_pos ms)
  have k: "double_val (1000, 0) = 1000" by (simp add: double_val_def)
  obtain d1 where d1: "\<bar>d1\<bar> \<le> 1 / 2 ^ 53" "double_val u = real_of_int ms * (1 + d1)"
    using rel_factor [OF double_of_int_error [of ms]] unfolding u_def by blast
  obtain d2 where d2: "\<bar>d2\<bar> \<le> 1 / 2 ^ 53" "double_val t = double_val u / 1000 * (1 + d2)"
    using rel_factor [OF double_div_error [of "(1000, 0)" u]] unfolding t_def k by auto
  obtain d0 where d0: "\<bar>d0\<bar> \<le> 1 / 2 ^ 53" "double_val d = real_of_int delta * (1 + d0)"
    using rel_factor [OF double_of_int_error [of delta]] unfolding d_def by blast
  obtain d3 where d3: "\<bar>d3\<bar> \<le> 1 / 2 ^ 53" "double_val y = double_val d / double_val t * (1 + d3)"
    using rel_factor [OF double_div_error [of t d]] tpos unfolding y_def by auto
  define x where "x = 1000 * real_of_int delta / real_of_int ms"
  define F where "F = (1 + d0) * (1 + d3) / ((1 + d1) * (1 + d2))"
  have nz: "1 + d1 \<noteq> 0" "1 + d2 \<noteq> 0" "real_of_int ms \<noteq> 0"
    using d1(1) d2(1) ms by auto
  have "double_val y = x * F"
    unfolding d3(2) d0(2) d2(2) d1(2) x_def F_def using nz by (simp add: field_simps)
  then have "double_val y - x = x * (F - 1)" by (simp add: algebra_simps)
  then have "\<bar>double_val y - x\<bar> = \<bar>x\<bar> * \<bar>F - 1\<bar>" by (simp add: abs_mult)
  also have "\<dots> \<le> \<bar>x\<bar> * (5 / 2 ^ 53)"
    using factor_bound [OF d0(1) d1(1) d2(1) d3(1)] unfolding F_def
    by (intro mult_left_mono) auto
  finally show ?thesis by (simp add: y_def d_def t_def u_def x_def)
qed

lemma sub_int64_in_range:
  "- (2 ^ 63) \<le> a - b \<Longrightarrow> a - b < 2 ^ 63 \<Longrightarrow> sub_int64 a b = a - b"
  by (simp add: sub_int64_def)

lemma rate_close:
  assumes ms: "0 < ms" and small: "\<bar>current - previous\<bar> \<le> 2 ^ 40"
  shows "truncated_rate (rate current previous (double_div (double_of_int ms) (1000, 0)))
           current previous ms"
proof -
  define delta where "delta = current - previous"
  define t where "t = double_div (double_of_int ms) (1000, 0)"
  define y where "y = double_val (double_div (double_of_int delta) t)"
  define x where "x = 1000 * real_of_int delta / real_of_int ms"
  have "- (2 ^ 63) \<le> current - previous" "current - previous < 2 ^ 63"
    using small by (simp_all add: abs_le_iff)
  then have sub: "sub_int64 current previous = delta"
    unfolding delta_def by (rule sub_int64_in_range)
  have rms: "0 < real_of_int ms" using ms by simp
  have db: "\<bar>real_of_int delta\<bar> \<le> 2 ^ 40"
  proof -
    have "real_of_int \<bar>delta\<bar> \<le> real_of_int (2 ^ 40)"
      using small unfolding delta_def by (rule of_int_le_iff [THEN iffD2])
    then show ?thesis by simp
  qed
  have mx: "real_of_int ms * x = 1000 * real_of_int delta"
    using rms by (simp add: x_def)
  then have amx: "real_of_int ms * \<bar>x\<bar> = 1000 * \<bar>real_of_int delta\<bar>"
    using rms by (simp add: x_def abs_mult)
  have err: "\<bar>y - x\<bar> \<le> \<bar>x\<bar> * (5 / 2 ^ 53)"
    using rate_value [OF ms, of delta] by (simp add: y_def x_def t_def)
  have "\<bar>real_of_int ms * y - real_of_int (1000 * delta)\<bar> = real_of_int ms * \<bar>y - x\<bar>"
  proof -
    have "real_of_int ms * y - real_of_int (1000 * delta) = real_of_int ms * (y - x)"
      using mx by (simp add: algebra_simps)
    then show ?thesis using rms by (simp add: abs_mult)
  qed
  also have "\<dots> \<le> real_of_int ms * (\<bar>x\<bar> * (5 / 2 ^ 53))"
    using err rms by (intro mult_left_mono) auto
  also have "\<dots> = (1000 * \<bar>real_of_int delta\<bar>) * (5 / 2 ^ 53)"
    using amx by (simp add: algebra_simps)
  also have "\<dots> \<le> (1000 * 2 ^ 40) * (5 / 2 ^ 53)"
    using db by (intro mult_right_mono) auto
  also have "\<dots> < 1" by simp
  finally have close: "\<bar>real_of_int ms * y - real_of_int (1000 * delta)\<bar> < 1" .
  have c1: "\<bar>x\<bar> * (5 / 2 ^ 53) \<le> \<bar>x\<bar>"
    by (rule mult_left_le) simp_all
  have pos: "0 \<le> y" if "0 \<le> 1000 * delta"
  proof -
    from that have "0 \<le> x" using rms by (simp add: x_def)
    with err c1 show ?thesis by linarith
  qed
  have neg: "y \<le> 0" if "1000 * delta \<le> 0"
  proof -
    from that have "real_of_int delta \<le> 0" by simp
    then have "x \<le> 0" using rms by (simp add: x_def divide_nonpos_pos mult_nonneg_nonpos)
    with err c1 show ?thesis by linarith
  qed
  define v where "v = trunc_real y"
  define q where "q = exact_rate current previous ms"
  have q: "q = trunc_div (1000 * delta) ms" by (simp add: q_def exact_rate_def delta_def)
  have sg: "sgn (1000 * delta) = sgn delta" by (simp add: sgn_mult)
  from trunc_real_near_rat [OF ms close pos neg]
  have vq: "v = q \<or> (ms dvd 1000 * delta \<and> v = q - sgn delta)"
    unfolding v_def q sg by blast
  have "\<bar>q\<bar> \<le> \<bar>1000 * delta\<bar>"
  proof -
    define N where "N = \<bar>1000 * delta\<bar>"
    have "N div ms \<le> N div 1"
      using ms by (intro zdiv_mono2) (simp_all add: N_def)
    then have u: "N div ms \<le> N" by simp
    have l: "0 \<le> N div ms" using ms by (simp add: pos_imp_zdiv_nonneg_iff N_def)
    have "q = N div ms \<or> q = - (N div ms)"
      using ms unfolding q trunc_div_def N_def by (simp split: if_splits)
    with u l have "\<bar>q\<bar> \<le> N" by auto
    then show ?thesis unfolding N_def .
  qed
  also have "\<dots> \<le> 1000 * 2 ^ 40" using small by (simp add: delta_def abs_mult)
  finally have qb: "\<bar>q\<bar> \<le> 1000 * 2 ^ 40" .
  have sb: "\<bar>sgn delta\<bar> \<le> 1" by (simp add: sgn_if)
  have "\<bar>v - q\<bar> \<le> 1"
  proof -
    from vq have "v - q = 0 \<or> v - q = - sgn delta" by auto
    with sb show ?thesis by auto
  qed
  with qb have "\<bar>v\<bar> \<le> 1000 * 2 ^ 40 + 1" by linarith
  then have "- (2 ^ 63) \<le> v \<and> v < 2 ^ 63" by (simp add: abs_le_iff)
  then have "int64_of_double (double_div (double_of_int delta) t) = Some v"
    by (simp add: int64_of_double_trunc Let_def v_def y_def)
  then have "rate current previous t = v"
    by (simp add: rate_def sub static_cast_int64_def)
  with vq show ?thesis
    unfolding truncated_rate_def t_def q_def delta_def by simp
qed

lemma elapsed_positive:
  fixes now last :: "64 word"
  assumes "last < now"
  shows "uint (now - last) = uint now - uint last" and "0 < uint (now - last)"
proof -
  have le: "last \<le> now" using assms by simp
  show e: "uint (now - last) = uint now - uint last"
    using le by (simp add: uint_minus_simple_alt)
  show "0 < uint (now - last)"
    using assms unfolding e by (simp add: word_less_def)
qed

lemma traffic_rate_close:
  assumes run: "isRunning s" "trafficCallback s"
    and prev: "0 < lastTime s" and elapsed: "lastTime s < now"
    and stats: "GetTrafficStats response = Inr stats"
    and up: "\<bar>upload stats - lastUpload s\<bar> \<le> 2 ^ 40"
    and down: "\<bar>download stats - lastDownload s\<bar> \<le> 2 ^ 40"
  shows "\<exists>up down.
     traffic_cycle response now s =
       (Inr (),
        s\<lparr>lastUpload := upload stats, lastDownload := download stats, lastTime := now\<rparr>,
        [TrafficEvent (stats\<lparr>uploadSpeed := up, downloadSpeed := down\<rparr>)])
     \<and> truncated_rate up (upload stats) (lastUpload s) (uint now - uint (lastTime s))
     \<and> truncated_rate down (download stats) (lastDownload s) (uint now - uint (lastTime s))"
proof -
  define ms where "ms = uint (now - lastTime s)"
  note e = elapsed_positive [OF elapsed]
  have ms: "0 < ms" "ms = uint now - uint (lastTime s)" using e by (simp_all add: ms_def)
  define t where "t = double_div (double_of_int ms) (1000, 0)"
  have tp: "double_pos t" unfolding t_def by (rule timeDelta_pos [OF ms(1)])
  define u where "u = rate (upload stats) (lastUpload s) t"
  define d where "d = rate (download stats) (lastDownload s) t"
  have u: "truncated_rate u (upload stats) (lastUpload s) ms"
    using rate_close [OF ms(1) up] unfolding t_def u_def .
  have d: "truncated_rate d (download stats) (lastDownload s) ms"
    using rate_close [OF ms(1) down] unfolding t_def d_def .
  have "traffic_cycle response now s =
       (Inr (),
        s\<lparr>lastUpload := upload stats, lastDownload := download stats, lastTime := now\<rparr>,
        [TrafficEvent (stats\<lparr>uploadSpeed := u, downloadSpeed := d\<rparr>)])"
    using run prev stats tp
    by (simp add: traffic_cycle_def Let_def t_def ms_def u_def d_def)
  with u d show ?thesis unfolding ms(2) by blast
qed

text \<open>
  Claim C1, amended. In a pass of the poller with a previous sample (stored time above
  zero) and a later tick count, for counters that moved by at most \<open>2 ^ 40\<close> bytes since
  that sample, the traffic observer is called once, with the cumulative totals of the
  snapshot, and each rate is the difference of the counters divided by the elapsed
  seconds and truncated towards zero, with one exception: when that quotient is a whole
  number, the rate may be the whole number next to it towards zero, because the code
  takes the quotient in double precision, where it can fall just short of the whole
  number before it is truncated. For the counters 1000 and 2000 followed one second later
  by 1500 and 2400 the rates are 500 and 400.
\<close>

theorem traffic_rate_event:
  "(isRunning s \<and> trafficCallback s \<and> 0 < lastTime s \<and> lastTime s < now
      \<and> GetTrafficStats response = Inr stats
      \<and> \<bar>upload stats - lastUpload s\<bar> \<le> 2 ^ 40 \<and> \<bar>download stats - lastDownload s\<bar> \<le> 2 ^ 40
    \<longrightarrow> (\<exists>up down.
          traffic_cycle response now s =
            (Inr (),
             s\<lparr>lastUpload := upload stats, lastDownload := download stats, lastTime := now\<rparr>,
             [TrafficEvent (stats\<lparr>uploadSpeed := up, downloadSpeed := down\<rparr>)])
          \<and> truncated_rate up (upload stats) (lastUpload s) (uint now - uint (lastTime s))
          \<and> truncated_rate down (download stats) (lastDownload s) (uint now - uint (lastTime s))))
   \<and> lastUpload sampled_example = 1000 \<and> lastDownload sampled_example = 2000
   \<and> lastTime sampled_example = 5000
   \<and> snd (snd (traffic_cycle (traffic_json ''1500'' ''2400'') 6000 sampled_example)) =
        [TrafficEvent \<lparr>upload = 1500, download = 2400, uploadSpeed = 500, downloadSpeed = 400\<rparr>]"
proof (intro conjI impI)
  assume a: "isRunning s \<and> trafficCallback s \<and> 0 < lastTime s \<and> lastTime s < now
      \<and> GetTrafficStats response = Inr stats
      \<and> \<bar>upload stats - lastUpload s\<bar> \<le> 2 ^ 40 \<and> \<bar>download stats - lastDownload s\<bar> \<le> 2 ^ 40"
  then show "\<exists>up down.
          traffic_cycle response now s =
            (Inr (),
             s\<lparr>lastUpload := upload stats, lastDownload := download stats, lastTime := now\<rparr>,
             [TrafficEvent (stats\<lparr>uploadSpeed := up, downloadSpeed := down\<rparr>)])
          \<and> truncated_rate up (upload stats) (lastUpload s) (uint now - uint (lastTime s))
          \<and> truncated_rate down (download stats) (lastDownload s) (uint now - uint (lastTime s))"
    using traffic_rate_close [of s now response stats] by blast
qed (simp_all add: sampled_example_def sampled_example_cycle [unfolded sampled_example_def])

theorem traffic_rate_event_witness:
  "isRunning sampled_example \<and> trafficCallback sampled_example \<and> 0 < lastTime sampled_example
   \<and> lastTime sampled_example < 6068
   \<and> GetTrafficStats (traffic_json ''70420'' ''2400'')
        = Inr \<lparr>upload = 70420, download = 2400, uploadSpeed = 0, downloadSpeed = 0\<rparr>
   \<and> (\<exists>up down.
         traffic_cycle (traffic_json ''70420'' ''2400'') 6068 sampled_example =
           (Inr (), sampled_example\<lparr>lastUpload := 70420, lastDownload := 2400, lastTime := 6068\<rparr>,
            [TrafficEvent \<lparr>upload = 70420, download = 2400, uploadSpeed = up, downloadSpeed = down\<rparr>])
         \<and> truncated_rate up 70420 1000 1068 \<and> truncated_rate down 2400 2000 1068)"
proof -
  have h1: "isRunning sampled_example" "trafficCallback sampled_example"
    "0 < lastTime sampled_example" "lastTime sampled_example < 6068"
    "lastUpload sampled_example = 1000" "lastDownload sampled_example = 2000"
    "lastTime sampled_example = 5000"
    by (simp_all add: sampled_example_def connected_example_eq MihomoCore_new_def)
  have h2: "GetTrafficStats (traffic_json ''70420'' ''2400'')
        = Inr \<lparr>upload = 70420, download = 2400, uploadSpeed = 0, downloadSpeed = 0\<rparr>"
    by code_simp
  from traffic_rate_event [of sampled_example 6068 "traffic_json ''70420'' ''2400''"
      "\<lparr>upload = 70420, download = 2400, uploadSpeed = 0, downloadSpeed = 0\<rparr>"]
    h1 h2
  show ?thesis by simp
qed

text \<open>
  The rates are not always the truncated quotient itself: 69420 bytes in 1068
  milliseconds are 65000 bytes per second, and the code reports 64999. For a counter
  that moved by \<open>2 ^ 62 + 511\<close> bytes in one second the conversion to double precision
  alone loses the 511, so the statement above needs a bound on the movement.
\<close>

theorem traffic_rate_not_exact_counterexample:
  "snd (snd (traffic_cycle (traffic_json ''70420'' ''2400'') 6068 sampled_example)) =
     [TrafficEvent \<lparr>upload = 70420, download = 2400, uploadSpeed = 64999, downloadSpeed = 374\<rparr>]
   \<and> exact_rate 70420 (lastUpload sampled_example) (uint (6068 :: 64 word) - uint (lastTime sampled_example))
       = 65000
   \<and> snd (snd (traffic_cycle (traffic_json ''4611686018427389415'' ''2400'') 6000 sampled_example)) =
     [TrafficEvent \<lparr>upload = 4611686018427389415, download = 2400,
        uploadSpeed = 4611686018427387904, downloadSpeed = 400\<rparr>]
   \<and> exact_rate 4611686018427389415 (lastUpload sampled_example)
         (uint (6000 :: 64 word) - uint (lastTime sampled_example))
       = 4611686018427388415"
  by code_simp

end
